theory Spec2Isabelle
  imports Complex_Main
begin

section \<open>Numerical conventions\<close>

text \<open>
  The analysis routines of \<^verbatim>\<open>hgs_analysis.py\<close> (class \<^verbatim>\<open>Analysis\<close>) work on
  one-dimensional numpy arrays of floats. Samples are modelled as real numbers, so every
  statement below is about exact arithmetic; the places where the code itself handles a
  non-finite value are kept explicit: a missing sample (\<^verbatim>\<open>np.nan\<close>) of the
  detrender is \<open>None\<close>, a quotient by zero and a square root of a negative number have
  their own result values. The library solvers (\<^verbatim>\<open>numpy.linalg.lstsq\<close>,
  \<^verbatim>\<open>scipy.optimize.curve_fit\<close>, \<^verbatim>\<open>scipy.linalg.svdvals\<close>) are parameters of the
  functions that call them. A matrix is the list of its columns together with its number
  of rows; a covariance matrix is the list of its rows.
\<close>

datatype py_error =
    Exception string
  | IndexError
  | ValueError
  | OverflowError
  | ZeroDivisionError
  | SolverError

datatype xfloat = Fin real | PosInf | NegInf | NaN

datatype warning = IllConditioned xfloat

definition bindE :: "py_error + 'a \<Rightarrow> ('a \<Rightarrow> py_error + 'b) \<Rightarrow> py_error + 'b" where
  "bindE m f = (case m of Inl e \<Rightarrow> Inl e | Inr x \<Rightarrow> f x)"

text \<open>\<^verbatim>\<open>a / b\<close> on numpy floats: a zero divisor gives an infinity or NaN, not an exception.\<close>

definition np_divide :: "real \<Rightarrow> real \<Rightarrow> xfloat" where
  "np_divide a b =
     (if b \<noteq> 0 then Fin (a / b)
      else if 0 < a then PosInf
      else if a < 0 then NegInf
      else NaN)"

text \<open>\<^verbatim>\<open>x > r\<close> for a float \<open>x\<close> and a finite \<open>r\<close>; a comparison with NaN is false.\<close>

fun exceeds :: "xfloat \<Rightarrow> real \<Rightarrow> bool" where
  "exceeds (Fin v) r = (r < v)"
| "exceeds PosInf r = True"
| "exceeds NegInf r = False"
| "exceeds NaN r = False"

text \<open>\<^verbatim>\<open>np.sqrt\<close>: NaN (\<open>None\<close>) on a negative argument.\<close>

definition np_sqrt :: "real \<Rightarrow> real option" where
  "np_sqrt x = (if x < 0 then None else Some (sqrt x))"

text \<open>
  \<^verbatim>\<open>np.round\<close> rounds half to even; \<^verbatim>\<open>np.around(x, 6)\<close> does so at six decimals.
  The scaling by \<open>10\<^sup>6\<close> is exact here, whereas the code rounds the float64 product, which
  can differ from the exact one in its last place; the theorems below that hold for every
  input do not depend on the rounded value.
\<close>

definition np_round :: "real \<Rightarrow> int" where
  "np_round x =
     (let f = \<lfloor>x\<rfloor>; d = x - of_int f
      in if d < 1 / 2 then f
         else if 1 / 2 < d then f + 1
         else if even f then f else f + 1)"

definition np_around6 :: "real \<Rightarrow> real" where
  "np_around6 x = of_int (np_round (x * 1000000)) / 1000000"

text \<open>Python's \<^verbatim>\<open>int(x)\<close> on a float truncates towards zero.\<close>

definition py_int :: "real \<Rightarrow> int" where
  "py_int x = (if 0 \<le> x then \<lfloor>x\<rfloor> else \<lceil>x\<rceil>)"

fun np_diff :: "real list \<Rightarrow> real list" where
  "np_diff (a # b # xs) = (b - a) # np_diff (b # xs)"
| "np_diff xs = []"

text \<open>\<^verbatim>\<open>np.min\<close> and \<^verbatim>\<open>np.max\<close> raise ValueError on an empty array.\<close>

definition np_min :: "real list \<Rightarrow> py_error + real" where
  "np_min xs = (case xs of [] \<Rightarrow> Inl ValueError | x # ys \<Rightarrow> Inr (fold min ys x))"

definition np_max :: "real list \<Rightarrow> py_error + real" where
  "np_max xs = (case xs of [] \<Rightarrow> Inl ValueError | x # ys \<Rightarrow> Inr (fold max ys x))"

fun cumsum_from :: "real \<Rightarrow> real list \<Rightarrow> real list" where
  "cumsum_from a [] = []"
| "cumsum_from a (x # xs) = (a + x) # cumsum_from (a + x) xs"

definition np_cumsum :: "real list \<Rightarrow> real list" where
  "np_cumsum xs = cumsum_from 0 xs"

text \<open>
  \<^verbatim>\<open>np.nanmean\<close>. The samples of the model are finite, so no entry is skipped. On an
  empty array numpy yields NaN; the only caller adds the value to every entry of an array
  that is empty in that case, so the value is never observed.
\<close>

definition np_nanmean :: "real list \<Rightarrow> real" where
  "np_nanmean xs = sum_list xs / of_nat (length xs)"

text \<open>
  Elementwise binary operations broadcast an operand of length one and raise ValueError
  on any other mismatch of lengths.
\<close>

definition broadcast2 :: "('a \<Rightarrow> 'b \<Rightarrow> 'c) \<Rightarrow> 'a list \<Rightarrow> 'b list \<Rightarrow> py_error + 'c list" where
  "broadcast2 f xs ys =
     (if length xs = length ys then Inr (map2 f xs ys)
      else if length xs = 1 then Inr (map (f (hd xs)) ys)
      else if length ys = 1 then Inr (map (\<lambda>x. f x (hd ys)) xs)
      else Inl ValueError)"

text \<open>Indexing with an index array, \<^verbatim>\<open>a[k]\<close>: IndexError if an index is out of range.\<close>

definition fancy_index :: "'a list \<Rightarrow> nat list \<Rightarrow> py_error + 'a list" where
  "fancy_index xs ks =
     (if list_all (\<lambda>k. k < length xs) ks then Inr (map ((!) xs) ks) else Inl IndexError)"

text \<open>A slice \<^verbatim>\<open>a[lo:hi]\<close> with \<open>0 \<le> lo\<close> clips at the end of the array.\<close>

definition slice :: "nat \<Rightarrow> nat \<Rightarrow> 'a list \<Rightarrow> 'a list" where
  "slice lo hi xs = take (hi - lo) (drop lo xs)"

text \<open>
  \<^verbatim>\<open>np.dot(X, w)\<close> for a matrix with \<open>n\<close> rows given by its columns: ValueError unless
  \<open>w\<close> has one entry per column.
\<close>

definition np_dot :: "nat \<Rightarrow> real list list \<Rightarrow> real list \<Rightarrow> py_error + real list" where
  "np_dot n cols w =
     (if length cols \<noteq> length w then Inl ValueError
      else Inr (map (\<lambda>r. sum_list (map2 (\<lambda>col a. col ! r * a) cols w)) [0..<n]))"

text \<open>\<^verbatim>\<open>np.linspace(0, stop, num, endpoint=True)\<close> for \<open>num \<ge> 0\<close>.\<close>

definition np_linspace0 :: "real \<Rightarrow> nat \<Rightarrow> real list" where
  "np_linspace0 stop num =
     (if num = 1 then [0]
      else map (\<lambda>k. of_nat k * (stop / of_nat (num - 1))) [0..<num])"

section \<open>The lagged-regression deconvolution: \<^verbatim>\<open>regress_deconv\<close>\<close>

type_synonym curve_fit =
  "nat \<Rightarrow> real list list \<Rightarrow> real list \<Rightarrow> real list \<Rightarrow> real list
     \<Rightarrow> py_error + (real list \<times> real list list)"

type_synonym svdvals = "nat \<Rightarrow> real list list \<Rightarrow> real list"

record response =
  lag :: "real list"
  irf :: "real list"
  irf_stdev :: "real option list"
  crf :: "real list"
  crf_stdev :: "real option list"

datatype erf_result =
    ErfHals (erf_freq: "real list") (erf_comp: "complex list")
  | ErfTs response

record params =
  brf :: response
  erf :: "erf_result option"

text \<open>Lines 520--523: the sampling interval is constant after rounding to six decimals.\<close>

definition regular_check :: "real list \<Rightarrow> py_error + unit" where
  "regular_check tf =
     (let tmp = np_diff tf
      in bindE (np_min tmp) (\<lambda>lo. bindE (np_max tmp) (\<lambda>hi.
           if np_around6 lo \<noteq> np_around6 hi
           then Inl (Exception ''Error: Dataset must be regularly sampled!'')
           else Inr ())))"

text \<open>
  Lines 524--525. Python chains the comparison: \<^verbatim>\<open>a != b != c\<close> is
  \<^verbatim>\<open>a != b and b != c\<close>.
\<close>

definition length_check :: "real list \<Rightarrow> real list \<Rightarrow> real list \<Rightarrow> py_error + unit" where
  "length_check tf GW BP =
     (if length tf \<noteq> length GW \<and> length GW \<noteq> length BP
      then Inl (Exception ''Error: All input arrays must have the same length!'')
      else Inr ())"

text \<open>\<^verbatim>\<open>dt = t[1] - t[0]\<close>.\<close>

definition sample_interval :: "real list \<Rightarrow> py_error + real" where
  "sample_interval t = (case t of a # b # _ \<Rightarrow> Inr (b - a) | _ \<Rightarrow> Inl IndexError)"

text \<open>
  The loops at lines 543--547 and 657--672: column \<open>i\<close> of an \<open>n\<close>-row matrix holds the
  series \<open>d\<close> delayed by \<open>i\<close> samples, \<^verbatim>\<open>v[j+k, i] = d[k]\<close> for \<open>k < n - j\<close>, above zeros.
\<close>

definition lag_columns :: "nat \<Rightarrow> nat \<Rightarrow> real list \<Rightarrow> real list list" where
  "lag_columns n nm d = map (\<lambda>i. take n (replicate i 0 @ d)) [0..<nm]"

text \<open>
  Lines 549--563: the regressors \<open>X\<close> of mode \<^verbatim>\<open>hals\<close>. With Earth tides the cosine
  columns \<open>u1\<close> and the sine columns \<open>u2\<close> at the frequencies \<open>fqs\<close> follow the lag columns;
  \<^verbatim>\<open>t[nn]\<close> raises IndexError when the time vector has fewer than \<open>n\<close> samples.
\<close>

definition cos_columns :: "nat \<Rightarrow> real list \<Rightarrow> real list \<Rightarrow> real list list" where
  "cos_columns n t fqs = map (\<lambda>f. map (\<lambda>tk. cos (2 * pi * f * tk)) (take n t)) fqs"

definition sin_columns :: "nat \<Rightarrow> real list \<Rightarrow> real list \<Rightarrow> real list list" where
  "sin_columns n t fqs = map (\<lambda>f. map (\<lambda>tk. sin (2 * pi * f * tk)) (take n t)) fqs"

definition hals_regressors ::
  "bool \<Rightarrow> nat \<Rightarrow> real list list \<Rightarrow> real list \<Rightarrow> real list \<Rightarrow> py_error + real list list" where
  "hals_regressors et n v t fqs =
     (if et then
        (if fqs \<noteq> [] \<and> length t < n then Inl IndexError
         else
           let u1 = cos_columns n t fqs;
               u2 = sin_columns n t fqs
           in Inr (v @ u1 @ u2))
      else Inr v)"

text \<open>Lines 580--587 and 689--696: the condition number and its warning.\<close>

definition cond_number :: "real list \<Rightarrow> py_error + xfloat" where
  "cond_number sgl =
     bindE (np_max sgl) (\<lambda>hi. bindE (np_min sgl) (\<lambda>lo. Inr (np_divide hi lo)))"

definition cond_warnings :: "xfloat \<Rightarrow> warning list" where
  "cond_warnings condnum = (if exceeds condnum 1000000 then [IllConditioned condnum] else [])"

text \<open>
  Lines 590--596 and 699--705: the integrated fitted contribution \<^verbatim>\<open>dWLc\<close>, the
  subtraction from the heads behind a leading zero, and the re-centring.
\<close>

definition head_correction :: "nat \<Rightarrow> real list list \<Rightarrow> real list \<Rightarrow> real \<Rightarrow> py_error + real list" where
  "head_correction n X c dt =
     bindE (np_dot n X (drop 1 c)) (\<lambda>Xc. Inr (0 # map (\<lambda>s. dt * s) (np_cumsum Xc)))"

definition recentre :: "real list \<Rightarrow> real list \<Rightarrow> real list" where
  "recentre GW WLc = map (\<lambda>w. w + (np_nanmean GW - np_nanmean WLc)) WLc"

definition corrected_heads ::
  "nat \<Rightarrow> real list list \<Rightarrow> real list \<Rightarrow> real \<Rightarrow> real list \<Rightarrow> py_error + real list" where
  "corrected_heads n X c dt GW =
     bindE (head_correction n X c dt) (\<lambda>corr.
     bindE (broadcast2 (\<lambda>g d. g - d) GW corr) (\<lambda>WLc.
       Inr (recentre GW WLc)))"

text \<open>
  Lines 607--615 and 716--724: \<^verbatim>\<open>np.diagonal\<close>, \<^verbatim>\<open>np.tril(., -1)\<close> and the variance
  of the cumulative response at step \<open>i\<close>, computed on the block of the first \<open>i + 1\<close>
  rows and columns.
\<close>

fun np_diagonal :: "real list list \<Rightarrow> real list" where
  "np_diagonal [] = []"
| "np_diagonal (r # rs) = (case r of [] \<Rightarrow> [] | x # _ \<Rightarrow> x # np_diagonal (map tl rs))"

fun tril_from :: "nat \<Rightarrow> real list list \<Rightarrow> real list list" where
  "tril_from k [] = []"
| "tril_from k (r # rs) = (take k r @ replicate (length r - k) 0) # tril_from (Suc k) rs"

definition np_tril_below :: "real list list \<Rightarrow> real list list" where
  "np_tril_below m = tril_from 0 m"

definition np_sum2 :: "real list list \<Rightarrow> real" where
  "np_sum2 m = sum_list (map sum_list m)"

definition leading_block :: "nat \<Rightarrow> real list list \<Rightarrow> real list list" where
  "leading_block k m = map (take k) (take k m)"

definition cum_var_at :: "real list list \<Rightarrow> nat \<Rightarrow> real" where
  "cum_var_at rf_covar i =
     (let diag = np_diagonal (leading_block (i + 1) rf_covar);
          triaglow = np_tril_below (leading_block (i + 1) rf_covar)
      in sum_list diag + 2 * np_sum2 triaglow)"

text \<open>
  The array of cumulative variances is allocated with \<open>shape\<close> zeros and written at the
  indices \<open>0 \<dots> nm - 1\<close>; a write beyond its end raises IndexError.
\<close>

definition cum_var :: "nat \<Rightarrow> real list list \<Rightarrow> nat \<Rightarrow> py_error + real list" where
  "cum_var shape rf_covar nm =
     (if shape < nm then Inl IndexError
      else Inr (map (cum_var_at rf_covar) [0..<nm] @ replicate (shape - nm) 0))"

definition covar_block :: "nat \<Rightarrow> nat \<Rightarrow> real list list \<Rightarrow> real list list" where
  "covar_block lo hi covar = map (slice lo hi) (slice lo hi covar)"

definition response_of ::
  "real list \<Rightarrow> real list \<Rightarrow> real list list \<Rightarrow> nat \<Rightarrow> nat \<Rightarrow> py_error + response" where
  "response_of lag_t rf rf_covar shape nm =
     bindE (cum_var shape rf_covar nm) (\<lambda>crf_var.
       Inr \<lparr> lag = lag_t, irf = rf, irf_stdev = map np_sqrt (np_diagonal rf_covar),
             crf = np_cumsum rf, crf_stdev = map np_sqrt crf_var \<rparr>)"

text \<open>Lines 619--625: the tidal coefficients of mode \<^verbatim>\<open>hals\<close>.\<close>

definition hals_erf :: "real list \<Rightarrow> nat \<Rightarrow> real list \<Rightarrow> py_error + erf_result" where
  "hals_erf c nm fqs =
     (let NP = length fqs; k = [nm + 1..<NP + nm + 1]
      in bindE (fancy_index c k) (\<lambda>ck.
         bindE (fancy_index c (map (\<lambda>i. NP + i) k)) (\<lambda>cNPk.
           Inr (ErfHals fqs (map2 (\<lambda>a b. Complex a b) ck cNPk)))))"

text \<open>
  \<^verbatim>\<open>np.diff(a)/dt\<close> and \<^verbatim>\<open>int((lag_h/24)*spd)\<close> with
  \<^verbatim>\<open>spd = int(np.round(1/dt))\<close>. The product is exact here, whereas the code
  truncates the float64 product, which can lie just below an integer that the exact
  product reaches; the theorems below that hold for every input hold for every number
  of lags.
\<close>

definition derivative :: "real list \<Rightarrow> real \<Rightarrow> real list" where
  "derivative a dt = map (\<lambda>d. d / dt) (np_diff a)"

definition lag_steps :: "real \<Rightarrow> real \<Rightarrow> int" where
  "lag_steps lag_h dt = py_int ((lag_h / 24) * of_int (np_round (1 / dt)))"

text \<open>
  Lines 565--596 and 677--705, the same in both modes: the intercept column is put in
  front of the regressors, the solver is started from \<open>0.5\<close> in every coefficient, the
  condition number is taken from the singular values and the heads are corrected.
\<close>

definition fit_and_correct ::
  "curve_fit \<Rightarrow> svdvals \<Rightarrow> nat \<Rightarrow> real list list \<Rightarrow> real list \<Rightarrow> real list \<Rightarrow> real \<Rightarrow> real list
     \<Rightarrow> py_error + (real list \<times> real list list \<times> xfloat \<times> real list)" where
  "fit_and_correct cf sv n X t dWL dt GW =
     (let Z = replicate n 1 # X
      in bindE (cf n Z t dWL (replicate (length Z) (1 / 2))) (\<lambda>(c, covar).
         bindE (cond_number (sv n Z)) (\<lambda>condnum.
         bindE (corrected_heads n X c dt GW) (\<lambda>WLc.
           Inr (c, covar, condnum, WLc)))))"

text \<open>Lines 602--616 and 711--725: the barometric response.\<close>

definition brf_bundle ::
  "real list \<Rightarrow> real list list \<Rightarrow> real list \<Rightarrow> nat \<Rightarrow> py_error + response" where
  "brf_bundle c covar lag_t nm =
     bindE (fancy_index c [1..<nm + 1]) (\<lambda>rf.
       let brf_covar = covar_block 1 (nm + 1) covar
       in response_of lag_t rf brf_covar (length (np_diagonal brf_covar)) nm)"

text \<open>
  Lines 727--742: the tidal response of mode \<^verbatim>\<open>ts\<close>; its array of cumulative
  variances is allocated with the shape of the barometric variances.
\<close>

definition erf_bundle ::
  "real list \<Rightarrow> real list list \<Rightarrow> real list \<Rightarrow> nat \<Rightarrow> py_error + response" where
  "erf_bundle c covar lag_t nm =
     response_of lag_t (slice (nm + 1) (2 * nm + 1) c)
       (covar_block (nm + 1) (2 * nm + 1) covar)
       (length (np_diagonal (covar_block 1 (nm + 1) covar))) nm"

text \<open>
  Lines 527--627: mode \<^verbatim>\<open>hals\<close>. \<^verbatim>\<open>np.zeros([n, nm])\<close> raises ValueError on a
  negative \<open>nm\<close>; \<^verbatim>\<open>int(np.round(1/dt))\<close> raises OverflowError when \<open>dt\<close> is zero.
  The warning is reported together with the result; a call that raises reports the
  exception only.
\<close>

definition deconv_hals ::
  "curve_fit \<Rightarrow> svdvals \<Rightarrow> real list \<Rightarrow> real list \<Rightarrow> real list \<Rightarrow> bool \<Rightarrow> real \<Rightarrow> real list
     \<Rightarrow> py_error + (real list \<times> params \<times> warning list)" where
  "deconv_hals cf sv tf GW BP et lag_h fqs =
     bindE (sample_interval tf) (\<lambda>dt.
     if dt = 0 then Inl OverflowError
     else
       let dBP = derivative BP dt;
           dWL = derivative GW dt;
           nlag = lag_steps lag_h dt;
           n = length dBP
       in if nlag + 1 < 0 then Inl ValueError
          else
            let nm = nat (nlag + 1);
                v = lag_columns n nm (map uminus dBP)
            in bindE (hals_regressors et n v tf fqs) (\<lambda>X.
               bindE (fit_and_correct cf sv n X tf dWL dt GW) (\<lambda>(c, covar, condnum, WLc).
               bindE (brf_bundle c covar (np_linspace0 lag_h nm) nm) (\<lambda>b.
               bindE (if et then bindE (hals_erf c nm fqs) (\<lambda>e. Inr (Some e)) else Inr None)
                 (\<lambda>e. Inr (WLc, \<lparr> brf = b, erf = e \<rparr>, cond_warnings condnum))))))"

text \<open>
  Lines 665--673: the lagged Earth-tide columns of mode \<^verbatim>\<open>ts\<close>;
  \<^verbatim>\<open>dET[k]\<close> raises IndexError when the tide derivative is shorter than \<open>n\<close>.
\<close>

definition ts_regressors ::
  "bool \<Rightarrow> nat \<Rightarrow> nat \<Rightarrow> real list list \<Rightarrow> real list \<Rightarrow> py_error + real list list" where
  "ts_regressors et n nm V dET =
     (if et then
        (if 0 < nm \<and> length dET < n then Inl IndexError
         else Inr (V @ lag_columns n nm dET))
      else Inr V)"

text \<open>Lines 632--636: the Earth-tide series of mode \<^verbatim>\<open>ts\<close>.\<close>

definition ts_check :: "bool \<Rightarrow> real list \<Rightarrow> real list option \<Rightarrow> py_error + real list" where
  "ts_check et tf ET =
     (if et then
        (case ET of
           None \<Rightarrow> Inl (Exception ''Error: Please input valid Earth tide data!'')
         | Some E \<Rightarrow>
             if length tf \<noteq> length E
             then Inl (Exception ''Error: Earth tide data must have the same length!'')
             else Inr E)
      else Inr [])"

text \<open>
  Lines 630--744: mode \<^verbatim>\<open>ts\<close>. Here \<open>nm\<close> is the length of a \<^verbatim>\<open>range\<close>, never
  negative; \<^verbatim>\<open>np.linspace\<close> raises ValueError on a negative number of samples.
\<close>

definition deconv_ts ::
  "curve_fit \<Rightarrow> svdvals \<Rightarrow> real list \<Rightarrow> real list \<Rightarrow> real list \<Rightarrow> real list option \<Rightarrow> bool \<Rightarrow> real
     \<Rightarrow> py_error + (real list \<times> params \<times> warning list)" where
  "deconv_ts cf sv tf GW BP ET et lag_h =
     bindE (ts_check et tf ET) (\<lambda>E.
     bindE (sample_interval tf) (\<lambda>dt.
     if dt = 0 then Inl OverflowError
     else
       let dBP = derivative BP dt;
           dWL = derivative GW dt;
           dET = derivative E dt;
           nlag = lag_steps lag_h dt;
           n = length dBP;
           nm = nat (nlag + 1);
           V = lag_columns n nm (map uminus dBP)
       in bindE (ts_regressors et n nm V dET) (\<lambda>XY.
          bindE (fit_and_correct cf sv n XY tf dWL dt GW) (\<lambda>(c, covar, condnum, WLc).
          if nlag + 1 < 0 then Inl ValueError
          else
            let lag_t = np_linspace0 lag_h nm
            in bindE (brf_bundle c covar lag_t nm) (\<lambda>b.
               bindE (if et then bindE (erf_bundle c covar lag_t nm) (\<lambda>e. Inr (Some (ErfTs e)))
                      else Inr None)
                 (\<lambda>e. Inr (WLc, \<lparr> brf = b, erf = e \<rparr>, cond_warnings condnum)))))))"

text \<open>
  Lines 513--746. \<open>etfqs\<close> is the table of tidal frequencies \<^verbatim>\<open>const.const['_etfqs']\<close>,
  the default of \<open>fqs\<close>.
\<close>

definition regress_deconv ::
  "curve_fit \<Rightarrow> svdvals \<Rightarrow> real list \<Rightarrow> real list \<Rightarrow> real list \<Rightarrow> real list \<Rightarrow> real list option
     \<Rightarrow> real \<Rightarrow> string option \<Rightarrow> real list option
     \<Rightarrow> py_error + (real list \<times> params \<times> warning list)" where
  "regress_deconv cf sv etfqs tf GW BP ET lag_h et_method fqs =
     (let et = \<not> (ET = None \<and> et_method = None);
          method = (if ET = None \<and> et_method = None then Some ''hals'' else et_method);
          fqs' = (case fqs of None \<Rightarrow> etfqs | Some f \<Rightarrow> f)
      in bindE (regular_check tf) (\<lambda>u.
         bindE (length_check tf GW BP) (\<lambda>u'.
           if method = Some ''hals'' then deconv_hals cf sv tf GW BP et lag_h fqs'
           else if method = Some ''ts'' then deconv_ts cf sv tf GW BP ET et lag_h
           else Inl (Exception ''Error: Please only use available Earth tide methods!''))))"

section \<open>The harmonic least-squares fit: \<^verbatim>\<open>harmonic_lsqr\<close>\<close>

text \<open>
  \<^verbatim>\<open>np.linalg.lstsq(Phi, data, rcond=None)\<close> returns the solution, the residuals array,
  the rank and the singular values.
\<close>

type_synonym lstsq =
  "nat \<Rightarrow> real list list \<Rightarrow> real list \<Rightarrow> real list \<times> real list \<times> nat \<times> real list"

record hals_result =
  freq :: "real list"
  complex_coef :: "complex list"
  err_var :: xfloat
  cond_num :: xfloat
  offset :: real
  y_model :: "real list"

text \<open>
  Assigning an array to a column of \<open>N\<close> rows, \<^verbatim>\<open>Phi[:,j] = a\<close>: an array of length one
  is broadcast, any other length than \<open>N\<close> raises ValueError.
\<close>

definition assign_column :: "nat \<Rightarrow> real list \<Rightarrow> py_error + real list" where
  "assign_column N a =
     (if length a = N then Inr a
      else if length a = 1 then Inr (replicate N (hd a))
      else Inl ValueError)"

text \<open>
  Lines 405--410: for the \<open>j\<close>-th angular frequency, column \<open>2j\<close> is the cosine and column
  \<open>2j + 1\<close> the sine; the last column is constant one.
\<close>

fun harmonic_columns :: "nat \<Rightarrow> real list \<Rightarrow> real list \<Rightarrow> py_error + real list list" where
  "harmonic_columns N tf [] = Inr []"
| "harmonic_columns N tf (fj # fs) =
     bindE (assign_column N (map (\<lambda>t. cos (fj * t)) tf)) (\<lambda>cj.
     bindE (assign_column N (map (\<lambda>t. sin (fj * t)) tf)) (\<lambda>sj.
     bindE (harmonic_columns N tf fs) (\<lambda>rest. Inr (cj # sj # rest))))"

definition design_matrix :: "nat \<Rightarrow> real list \<Rightarrow> real list \<Rightarrow> py_error + real list list" where
  "design_matrix N tf f = bindE (harmonic_columns N tf f) (\<lambda>cs. Inr (cs @ [replicate N 1]))"

text \<open>The slices \<^verbatim>\<open>a[::2]\<close> and \<^verbatim>\<open>a[1::2]\<close>.\<close>

fun evens :: "'a list \<Rightarrow> 'a list" where
  "evens (x # y # xs) = x # evens xs"
| "evens xs = xs"

fun odds :: "'a list \<Rightarrow> 'a list" where
  "odds (x # y # xs) = y # odds xs"
| "odds xs = []"

text \<open>
  Lines 412--429, after the solver has returned. \<^verbatim>\<open>residuals[0]\<close> raises IndexError on
  an empty residuals array. The warning is reported together with the result; a call that
  raises reports the exception only.
\<close>

definition hals_result_of ::
  "nat \<Rightarrow> real list \<Rightarrow> real list list \<Rightarrow> real list \<times> real list \<times> nat \<times> real list
     \<Rightarrow> py_error + (hals_result \<times> warning list)" where
  "hals_result_of N freqs Phi sol =
     (case sol of (theta, residuals, rank, singular) \<Rightarrow>
        (case residuals of
           [] \<Rightarrow> Inl IndexError
         | r0 # rs \<Rightarrow>
             let error_variance = np_divide r0 (of_nat N)
             in bindE (cond_number singular) (\<lambda>condnum.
                bindE (np_dot N Phi theta) (\<lambda>y.
                  if theta = [] then Inl IndexError
                  else
                    let dc_comp = last theta
                    in bindE (broadcast2 (\<lambda>a b. Complex b a)
                                (evens (butlast theta)) (odds (butlast theta)))
                         (\<lambda>hals_comp.
                           Inr (\<lparr> freq = freqs, complex_coef = hals_comp,
                                  err_var = error_variance, cond_num = condnum,
                                  offset = dc_comp, y_model = y \<rparr>,
                                cond_warnings condnum))))))"

text \<open>Lines 398--429. \<^verbatim>\<open>tf[0]\<close> raises IndexError on an empty time vector.\<close>

definition harmonic_lsqr ::
  "lstsq \<Rightarrow> real list \<Rightarrow> real list \<Rightarrow> real list \<Rightarrow> py_error + (hals_result \<times> warning list)" where
  "harmonic_lsqr solve tf data freqs =
     (let N = length data;
          f = map (\<lambda>q. q * 2 * pi) freqs
      in case tf of
           [] \<Rightarrow> Inl IndexError
         | t0 # ts \<Rightarrow>
             bindE (design_matrix N (map (\<lambda>t. t - of_int \<lfloor>t0\<rfloor>) tf) f) (\<lambda>Phi.
               hals_result_of N freqs Phi (solve N Phi data)))"

section \<open>The windowed linear detrend: \<^verbatim>\<open>lin_window_ovrlp\<close>\<close>

text \<open>
  \<open>line_fit xs ys\<close> stands for \<^verbatim>\<open>np.linalg.lstsq(A[i], y[i], rcond=None)[0]\<close>, the slope
  and the intercept fitted to the samples of one window.
\<close>

type_synonym line_fit = "real list \<Rightarrow> real list \<Rightarrow> real \<times> real"

text \<open>\<^verbatim>\<open>np.arange(start, stop, step)\<close> on floats; a zero step raises.\<close>

definition np_arange :: "real \<Rightarrow> real \<Rightarrow> real \<Rightarrow> py_error + real list" where
  "np_arange start stop step =
     (if step = 0 then Inl ValueError
      else Inr (map (\<lambda>k. start + of_nat k * step) [0..<nat \<lceil>(stop - start) / step\<rceil>]))"

fun mapE :: "('a \<Rightarrow> py_error + 'b) \<Rightarrow> 'a list \<Rightarrow> py_error + 'b list" where
  "mapE f [] = Inr []"
| "mapE f (x # xs) = bindE (f x) (\<lambda>y. bindE (mapE f xs) (\<lambda>ys. Inr (y # ys)))"

text \<open>Line 471: the indices of the samples within half a window length of the centre.\<close>

definition window_indices :: "real list \<Rightarrow> real \<Rightarrow> real \<Rightarrow> nat list" where
  "window_indices x len tt =
     filter (\<lambda>k. tt - len / 2 < x ! k \<and> x ! k \<le> tt + len / 2) [0..<length x]"

text \<open>
  Line 473: \<^verbatim>\<open>i[~np.isnan(y[i])]\<close>. The result pairs every kept index with its value.
\<close>

definition drop_missing :: "real option list \<Rightarrow> nat list \<Rightarrow> py_error + (nat \<times> real) list" where
  "drop_missing y i =
     bindE (fancy_index y i) (\<lambda>yi.
       Inr (concat (map2 (\<lambda>k v. case v of None \<Rightarrow> [] | Some r \<Rightarrow> [(k, r)]) i yi)))"

text \<open>Lines 478--480: the residuals of the window's samples about the fitted line.\<close>

definition detrend_window :: "line_fit \<Rightarrow> real list \<Rightarrow> (nat \<times> real) list \<Rightarrow> (nat \<times> real) list" where
  "detrend_window fit x w =
     (let coe = fit (map (\<lambda>(k, v). x ! k) w) (map snd w)
      in map (\<lambda>(k, v). (k, v - (fst coe * x ! k + snd coe))) w)"

text \<open>\<^verbatim>\<open>np.add.at(arr, i, vals)\<close>.\<close>

definition add_at :: "real list \<Rightarrow> (nat \<times> real) list \<Rightarrow> real list" where
  "add_at arr kv = fold (\<lambda>(k, d) a. a[k := a ! k + d]) kv arr"

definition detrend_step ::
  "line_fit \<Rightarrow> real list \<Rightarrow> (nat \<times> real) list \<Rightarrow> real list \<times> real list \<Rightarrow> real list \<times> real list" where
  "detrend_step fit x w acc =
     (add_at (fst acc) (detrend_window fit x w), add_at (snd acc) (map (\<lambda>(k, v). (k, 1)) w))"

text \<open>
  Lines 486--492: a zero count becomes NaN, the quotient is NaN there, and every NaN of
  the quotient is replaced by zero.
\<close>

definition finish :: "real list \<Rightarrow> real list \<Rightarrow> real list" where
  "finish y_detr counter =
     (let counter' = map (\<lambda>c. if c = 0 then None else Some c) counter;
          y_detrend = map2 (\<lambda>s c. case c of None \<Rightarrow> None | Some d \<Rightarrow> Some (s / d)) y_detr counter'
      in map (\<lambda>v. case v of None \<Rightarrow> 0 | Some r \<Rightarrow> r) y_detrend)"

text \<open>Lines 469--475: the windows that meet the stopper criterion.\<close>

definition surviving_windows ::
  "real list \<Rightarrow> real option list \<Rightarrow> real \<Rightarrow> int \<Rightarrow> real list \<Rightarrow> py_error + (nat \<times> real) list list" where
  "surviving_windows x y len stopper reg_times =
     bindE (mapE (drop_missing y) (map (window_indices x len) reg_times)) (\<lambda>idx.
       Inr (filter (\<lambda>w. stopper \<le> int (length w)) idx))"

text \<open>Lines 461--494.\<close>

definition lin_window_ovrlp ::
  "line_fit \<Rightarrow> real list \<Rightarrow> real option list \<Rightarrow> real \<Rightarrow> int \<Rightarrow> int \<Rightarrow> py_error + real list" where
  "lin_window_ovrlp fit tf data len stopper n_ovrlp =
     (if n_ovrlp + 1 = 0 then Inl ZeroDivisionError
      else
        let interval = len / of_int (n_ovrlp + 1)
        in case tf of
             a # b # _ \<Rightarrow>
               bindE (np_arange (a - (b - a) - len) (last tf + len) interval) (\<lambda>reg_times.
               bindE (surviving_windows tf data len stopper reg_times) (\<lambda>idx.
                 let acc = fold (detrend_step fit tf) idx
                             (replicate (length data) 0, replicate (length data) 0)
                 in Inr (finish (fst acc) (snd acc))))
           | _ \<Rightarrow> Inl IndexError)"

section \<open>The propagated variance of a partial sum\<close>

text \<open>
  The variance of the sum of the first \<open>i + 1\<close> coefficients with covariance matrix \<open>C\<close>:
  the sum of their variances plus twice the sum of the covariances below the diagonal of
  the leading block of \<open>i + 1\<close> rows and columns.
\<close>

definition propagated_variance :: "real list list \<Rightarrow> nat \<Rightarrow> real" where
  "propagated_variance C i = (\<Sum>k\<le>i. C ! k ! k) + 2 * (\<Sum>k\<le>i. \<Sum>l<k. C ! k ! l)"

section \<open>The correction of the heads by the barometric contribution alone\<close>

text \<open>
  The corrected heads as they would be if only the fitted barometric contribution, the
  lag columns times the barometric response \<open>b\<close>, were integrated and subtracted.
\<close>

definition barometric_only_heads ::
  "nat \<Rightarrow> nat \<Rightarrow> real list \<Rightarrow> real \<Rightarrow> real list \<Rightarrow> real list \<Rightarrow> py_error + real list" where
  "barometric_only_heads n nm BP dt b GW =
     bindE (np_dot n (lag_columns n nm (map uminus (derivative BP dt))) b) (\<lambda>s.
     bindE (broadcast2 (\<lambda>g d. g - d) GW (0 # map (\<lambda>x. dt * x) (np_cumsum s))) (\<lambda>W.
       Inr (recentre GW W)))"

section \<open>The detrended values of one sample\<close>

text \<open>
  The detrended values that the surviving windows \<open>idx\<close> contribute to the sample with
  index \<open>k\<close>, one for every window that contains the sample.
\<close>

definition contributions ::
  "line_fit \<Rightarrow> real list \<Rightarrow> (nat \<times> real) list list \<Rightarrow> nat \<Rightarrow> real list" where
  "contributions fit x idx k =
     concat (map (\<lambda>w. map snd (filter (\<lambda>(j, r). j = k) (detrend_window fit x w))) idx)"

section \<open>Solver results used in the examples\<close>

text \<open>
  The theorems below hold for every solver. Where a statement is evaluated on concrete
  series, the solver is one that returns a fixed result: \<open>const_fit c covar\<close> is a run of
  \<^verbatim>\<open>curve_fit\<close> that returned the coefficients \<open>c\<close> and the covariance \<open>covar\<close>
  (one coefficient per initial value, as \<^verbatim>\<open>curve_fit\<close> does),
  \<open>const_svd s\<close> a run of \<^verbatim>\<open>svdvals\<close> that returned \<open>s\<close>, \<open>const_lstsq r\<close> a run of
  \<^verbatim>\<open>lstsq\<close> that returned \<open>r\<close> and \<open>const_line coe\<close> a line fit that returned \<open>coe\<close>.
\<close>

definition const_fit :: "real list \<Rightarrow> real list list \<Rightarrow> curve_fit" where
  "const_fit c covar n Z t y p0 =
     (if length p0 = length c then Inr (c, covar) else Inl SolverError)"

definition const_svd :: "real list \<Rightarrow> svdvals" where
  "const_svd s n Z = s"

definition const_lstsq :: "real list \<times> real list \<times> nat \<times> real list \<Rightarrow> lstsq" where
  "const_lstsq r N Phi d = r"

definition const_line :: "real \<times> real \<Rightarrow> line_fit" where
  "const_line coe xs ys = coe"

section \<open>Basic facts about the numerical conventions\<close>

lemma bindE_Inr_iff: "bindE m f = Inr y \<longleftrightarrow> (\<exists>x. m = Inr x \<and> f x = Inr y)"
  by (cases m) (auto simp: bindE_def)

lemma bindE_Inr [simp]: "bindE (Inr x) f = f x"
  by (simp add: bindE_def)

lemma bindE_Inl [simp]: "bindE (Inl e) f = Inl e"
  by (simp add: bindE_def)

lemma length_cumsum_from [simp]: "length (cumsum_from a xs) = length xs"
  by (induction xs arbitrary: a) auto

lemma cumsum_from_nth: "i < length xs \<Longrightarrow> cumsum_from a xs ! i = a + sum_list (take (Suc i) xs)"
proof (induction xs arbitrary: a i)
  case Nil
  then show ?case by simp
next
  case (Cons x xs)
  then show ?case by (cases i) (auto simp: algebra_simps)
qed

lemma length_np_cumsum: "length (np_cumsum xs) = length xs"
  by (simp add: np_cumsum_def)

lemma np_cumsum_nth: "i < length xs \<Longrightarrow> np_cumsum xs ! i = sum_list (take (Suc i) xs)"
  by (simp add: np_cumsum_def cumsum_from_nth)

lemma np_cumsum_0: "xs \<noteq> [] \<Longrightarrow> np_cumsum xs ! 0 = xs ! 0"
  by (cases xs) (auto simp: np_cumsum_def)

lemma np_cumsum_step:
  "0 < i \<Longrightarrow> i < length xs \<Longrightarrow> np_cumsum xs ! i = np_cumsum xs ! (i - 1) + xs ! i"
  by (cases i) (auto simp: np_cumsum_nth take_Suc_conv_app_nth)

lemma np_cumsum_last:
  assumes "xs \<noteq> []"
  shows "last (np_cumsum xs) = sum_list xs"
proof -
  have len: "length (np_cumsum xs) = length xs" by (simp add: np_cumsum_def)
  from assms have ne: "np_cumsum xs \<noteq> []" using len by (metis length_0_conv)
  from assms have lt: "length xs - 1 < length xs" by (cases xs) auto
  have "last (np_cumsum xs) = np_cumsum xs ! (length xs - 1)"
    using ne len by (simp add: last_conv_nth)
  also have "\<dots> = sum_list (take (Suc (length xs - 1)) xs)"
    using lt by (rule np_cumsum_nth)
  also have "\<dots> = sum_list xs" using assms by (cases xs) auto
  finally show ?thesis .
qed

lemma sum_list_shift:
  "sum_list (map (\<lambda>w. w + c) xs) = sum_list xs + of_nat (length xs) * (c::real)"
  by (induction xs) (auto simp: algebra_simps)

lemma length_np_diff [simp]: "length (np_diff xs) = length xs - 1"
  by (induction xs rule: np_diff.induct) auto

lemma broadcast2_nonempty:
  "broadcast2 f xs ys = Inr zs \<Longrightarrow> xs \<noteq> [] \<Longrightarrow> ys \<noteq> [] \<Longrightarrow> zs \<noteq> []"
  by (auto simp: broadcast2_def split: if_splits)

lemma broadcast2_same:
  "broadcast2 f xs ys = Inr zs \<Longrightarrow> length xs = length ys \<Longrightarrow> length zs = length xs"
  by (auto simp: broadcast2_def split: if_splits)

lemma np_dot_total: "length A = length a \<Longrightarrow> \<exists>p. np_dot n A a = Inr p"
  by (simp add: np_dot_def)

section \<open>The structure of a returning call of \<^verbatim>\<open>regress_deconv\<close>\<close>

lemma length_recentre [simp]: "length (recentre GW W) = length W"
  by (simp add: recentre_def)

lemma mean_recentre:
  assumes "W \<noteq> []"
  shows "np_nanmean (recentre GW W) = np_nanmean GW"
proof -
  define n where "n = (of_nat (length W) :: real)"
  define c where "c = np_nanmean GW - sum_list W / n"
  from assms have n: "n \<noteq> 0" by (simp add: n_def)
  have "sum_list (recentre GW W) = sum_list W + n * c"
    unfolding recentre_def np_nanmean_def[of W] c_def n_def by (rule sum_list_shift)
  then have "np_nanmean (recentre GW W) = (sum_list W + n * c) / n"
    by (simp add: np_nanmean_def n_def)
  also have "\<dots> = sum_list W / n + c" using n by (simp add: field_simps)
  also have "\<dots> = np_nanmean GW" by (simp add: c_def)
  finally show ?thesis .
qed

lemma head_correction_Inr: "head_correction n X c dt = Inr corr \<Longrightarrow> length corr = Suc n"
  by (auto simp: head_correction_def bindE_Inr_iff np_dot_def np_cumsum_def split: if_splits)

lemma corrected_heads_mean:
  assumes "corrected_heads n X c dt GW = Inr WLc" "GW \<noteq> []"
  shows "np_nanmean WLc = np_nanmean GW"
proof -
  from assms(1) obtain corr W where c: "head_correction n X c dt = Inr corr"
    and b: "broadcast2 (\<lambda>g d. g - d) GW corr = Inr W" and w: "WLc = recentre GW W"
    by (auto simp: corrected_heads_def bindE_Inr_iff)
  from c have "corr \<noteq> []" by (auto dest: head_correction_Inr)
  with b assms(2) have "W \<noteq> []" by (rule_tac broadcast2_nonempty)
  then show ?thesis by (simp add: w mean_recentre)
qed

lemma corrected_heads_length:
  assumes "corrected_heads n X c dt GW = Inr WLc" "length GW = Suc n"
  shows "length WLc = length GW"
proof -
  from assms(1) obtain corr W where c: "head_correction n X c dt = Inr corr"
    and b: "broadcast2 (\<lambda>g d. g - d) GW corr = Inr W" and w: "WLc = recentre GW W"
    by (auto simp: corrected_heads_def bindE_Inr_iff)
  from c have "length corr = Suc n" by (rule head_correction_Inr)
  with b assms(2) have "length W = length GW" by (auto dest: broadcast2_same)
  then show ?thesis by (simp add: w)
qed

lemma fit_and_correct_Inr:
  assumes "fit_and_correct cf sv n X t dWL dt GW = Inr (c, covar, condnum, WLc)"
  shows "cf n (replicate n 1 # X) t dWL (replicate (Suc (length X)) (1 / 2)) = Inr (c, covar)
       \<and> cond_number (sv n (replicate n 1 # X)) = Inr condnum
       \<and> corrected_heads n X c dt GW = Inr WLc"
  using assms by (auto simp: fit_and_correct_def bindE_Inr_iff Let_def)

lemma deconv_hals_Inr:
  assumes "deconv_hals cf sv tf GW BP et lag_h fqs = Inr (WLc, p, ws)"
  shows "\<exists>dt X c covar condnum e.
      sample_interval tf = Inr dt \<and> dt \<noteq> 0 \<and> 0 \<le> lag_steps lag_h dt + 1
    \<and> hals_regressors et (length (derivative BP dt))
         (lag_columns (length (derivative BP dt)) (nat (lag_steps lag_h dt + 1))
            (map uminus (derivative BP dt))) tf fqs = Inr X
    \<and> fit_and_correct cf sv (length (derivative BP dt)) X tf (derivative GW dt) dt GW
        = Inr (c, covar, condnum, WLc)
    \<and> brf_bundle c covar (np_linspace0 lag_h (nat (lag_steps lag_h dt + 1)))
        (nat (lag_steps lag_h dt + 1)) = Inr (brf p)
    \<and> (if et then hals_erf c (nat (lag_steps lag_h dt + 1)) fqs = Inr e \<and> erf p = Some e
        else erf p = None)
    \<and> ws = cond_warnings condnum"
  using assms
  by (auto simp: deconv_hals_def bindE_Inr_iff Let_def split: if_splits)

lemma deconv_ts_Inr:
  assumes "deconv_ts cf sv tf GW BP ET et lag_h = Inr (WLc, p, ws)"
  shows "\<exists>E dt XY c covar condnum e.
      ts_check et tf ET = Inr E \<and> sample_interval tf = Inr dt \<and> dt \<noteq> 0
    \<and> 0 \<le> lag_steps lag_h dt + 1
    \<and> ts_regressors et (length (derivative BP dt)) (nat (lag_steps lag_h dt + 1))
         (lag_columns (length (derivative BP dt)) (nat (lag_steps lag_h dt + 1))
            (map uminus (derivative BP dt)))
         (derivative E dt) = Inr XY
    \<and> fit_and_correct cf sv (length (derivative BP dt)) XY tf (derivative GW dt) dt GW
        = Inr (c, covar, condnum, WLc)
    \<and> brf_bundle c covar (np_linspace0 lag_h (nat (lag_steps lag_h dt + 1)))
        (nat (lag_steps lag_h dt + 1)) = Inr (brf p)
    \<and> (if et then erf_bundle c covar (np_linspace0 lag_h (nat (lag_steps lag_h dt + 1)))
                   (nat (lag_steps lag_h dt + 1)) = Inr e
               \<and> erf p = Some (ErfTs e) else erf p = None)
    \<and> ws = cond_warnings condnum"
  using assms
  by (auto simp: deconv_ts_def bindE_Inr_iff Let_def split: if_splits)

lemma regress_deconv_Inr:
  assumes "regress_deconv cf sv etfqs tf GW BP ET lag_h m fqs = Inr r"
  shows "regular_check tf = Inr () \<and> length_check tf GW BP = Inr ()
    \<and> (deconv_hals cf sv tf GW BP (\<not> (ET = None \<and> m = None)) lag_h
           (case fqs of None \<Rightarrow> etfqs | Some f \<Rightarrow> f) = Inr r
         \<and> (m = Some ''hals'' \<or> m = None \<and> ET = None)
       \<or> deconv_ts cf sv tf GW BP ET True lag_h = Inr r \<and> m = Some ''ts'')"
  using assms
  by (auto simp: regress_deconv_def bindE_Inr_iff Let_def split: if_splits)

lemma regular_check_Inr: "regular_check tf = Inr u \<Longrightarrow> 2 \<le> length tf"
  by (cases tf rule: np_diff.cases)
     (auto simp: regular_check_def np_min_def bindE_Inr_iff Let_def split: list.splits)

lemma response_of_Inr:
  "response_of lag_t rf rf_covar shape nm = Inr b \<Longrightarrow>
     irf b = rf \<and> crf b = np_cumsum rf \<and> lag b = lag_t
   \<and> irf_stdev b = map np_sqrt (np_diagonal rf_covar)
   \<and> nm \<le> shape
   \<and> crf_stdev b = map np_sqrt (map (cum_var_at rf_covar) [0..<nm] @ replicate (shape - nm) 0)"
  by (auto simp: response_of_def bindE_Inr_iff cum_var_def split: if_splits)

lemma brf_bundle_Inr:
  "brf_bundle c covar lag_t nm = Inr b \<Longrightarrow>
     \<exists>rf. fancy_index c [1..<nm + 1] = Inr rf
        \<and> response_of lag_t rf (covar_block 1 (nm + 1) covar)
             (length (np_diagonal (covar_block 1 (nm + 1) covar))) nm = Inr b"
  by (simp add: brf_bundle_def bindE_Inr_iff Let_def)

lemma hals_erf_Inr: "hals_erf c nm fqs = Inr e \<Longrightarrow> \<exists>fq comp. e = ErfHals fq comp"
  by (auto simp: hals_erf_def bindE_Inr_iff Let_def)

lemma length_lag_columns [simp]: "length (lag_columns n nm d) = nm"
  by (simp add: lag_columns_def)

lemma hals_regressors_length: "hals_regressors et n v t fqs = Inr X \<Longrightarrow> length v \<le> length X"
  by (auto simp: hals_regressors_def Let_def split: if_splits)

lemma ts_regressors_length:
  "ts_regressors et n nm V dET = Inr XY \<Longrightarrow> length XY = (if et then length V + nm else length V)"
  by (auto simp: ts_regressors_def split: if_splits)

lemma regress_deconv_fit:
  assumes run: "regress_deconv cf sv etfqs tf GW BP ET lag_h m fqs = Inr (WLc, p, ws)"
  shows "\<exists>n Z y p0 c covar lag_t nm.
           cf n Z tf y p0 = Inr (c, covar)
         \<and> nm + 1 \<le> length p0
         \<and> brf_bundle c covar lag_t nm = Inr (brf p)
         \<and> (\<forall>b. erf p = Some (ErfTs b) \<longrightarrow>
               erf_bundle c covar lag_t nm = Inr b \<and> 2 * nm + 1 \<le> length p0)"
proof -
  from regress_deconv_Inr[OF run] have
    "deconv_hals cf sv tf GW BP (\<not> (ET = None \<and> m = None)) lag_h
                (case fqs of None \<Rightarrow> etfqs | Some f \<Rightarrow> f) = Inr (WLc, p, ws)
             \<or> deconv_ts cf sv tf GW BP ET True lag_h = Inr (WLc, p, ws)"
    by blast
  then show ?thesis
  proof
    assume "deconv_hals cf sv tf GW BP (\<not> (ET = None \<and> m = None)) lag_h
                (case fqs of None \<Rightarrow> etfqs | Some f \<Rightarrow> f) = Inr (WLc, p, ws)"
    from deconv_hals_Inr[OF this] obtain dt X c covar condnum e fq where
      X: "hals_regressors (\<not> (ET = None \<and> m = None)) (length (derivative BP dt))
            (lag_columns (length (derivative BP dt)) (nat (lag_steps lag_h dt + 1))
               (map uminus (derivative BP dt))) tf fq = Inr X"
      and fc: "fit_and_correct cf sv (length (derivative BP dt)) X tf (derivative GW dt) dt GW
                 = Inr (c, covar, condnum, WLc)"
      and bb: "brf_bundle c covar (np_linspace0 lag_h (nat (lag_steps lag_h dt + 1)))
                 (nat (lag_steps lag_h dt + 1)) = Inr (brf p)"
      and e: "if \<not> (ET = None \<and> m = None)
              then hals_erf c (nat (lag_steps lag_h dt + 1)) fq = Inr e \<and> erf p = Some e
              else erf p = None"
      by blast
    define nm where "nm = nat (lag_steps lag_h dt + 1)"
    from hals_regressors_length[OF X] have l: "nm + 1 \<le> length (replicate (Suc (length X)) (1 / 2 :: real))"
      by (simp add: nm_def)
    have ne: "erf p \<noteq> Some (ErfTs b)" for b
    proof (cases "\<not> (ET = None \<and> m = None)")
      case True
      with e have h: "hals_erf c (nat (lag_steps lag_h dt + 1)) fq = Inr e"
        and ep: "erf p = Some e" by simp_all
      from hals_erf_Inr[OF h] ep show ?thesis by auto
    next
      case False
      with e show ?thesis by simp
    qed
    from fit_and_correct_Inr[OF fc] have
      "cf (length (derivative BP dt)) (replicate (length (derivative BP dt)) 1 # X) tf
          (derivative GW dt) (replicate (Suc (length X)) (1 / 2)) = Inr (c, covar)"
      by blast
    with l bb ne show ?thesis unfolding nm_def[symmetric] by blast
  next
    assume "deconv_ts cf sv tf GW BP ET True lag_h = Inr (WLc, p, ws)"
    from deconv_ts_Inr[OF this] obtain E dt XY c covar condnum e where
      X: "ts_regressors True (length (derivative BP dt)) (nat (lag_steps lag_h dt + 1))
         (lag_columns (length (derivative BP dt)) (nat (lag_steps lag_h dt + 1))
            (map uminus (derivative BP dt)))
         (derivative E dt) = Inr XY"
      and fc: "fit_and_correct cf sv (length (derivative BP dt)) XY tf (derivative GW dt) dt GW
                 = Inr (c, covar, condnum, WLc)"
      and bb: "brf_bundle c covar (np_linspace0 lag_h (nat (lag_steps lag_h dt + 1)))
                 (nat (lag_steps lag_h dt + 1)) = Inr (brf p)"
      and e: "erf_bundle c covar (np_linspace0 lag_h (nat (lag_steps lag_h dt + 1)))
                 (nat (lag_steps lag_h dt + 1)) = Inr e" "erf p = Some (ErfTs e)"
      by auto
    define nm where "nm = nat (lag_steps lag_h dt + 1)"
    from ts_regressors_length[OF X]
    have l: "2 * nm + 1 \<le> length (replicate (Suc (length XY)) (1 / 2 :: real))"
      by (simp add: nm_def)
    then have l1: "nm + 1 \<le> length (replicate (Suc (length XY)) (1 / 2 :: real))" by simp
    from e l have eb: "\<forall>b. erf p = Some (ErfTs b) \<longrightarrow>
        erf_bundle c covar (np_linspace0 lag_h nm) nm = Inr b
      \<and> 2 * nm + 1 \<le> length (replicate (Suc (length XY)) (1 / 2 :: real))"
      by (simp add: nm_def)
    from fit_and_correct_Inr[OF fc] have
      "cf (length (derivative BP dt)) (replicate (length (derivative BP dt)) 1 # XY) tf
          (derivative GW dt) (replicate (Suc (length XY)) (1 / 2)) = Inr (c, covar)"
      by blast
    with l1 bb eb show ?thesis unfolding nm_def[symmetric] by blast
  qed
qed

lemma bundle_cumsum:
  assumes run: "regress_deconv cf sv etfqs tf GW BP ET lag_h m fqs = Inr (WLc, p, ws)"
    and b: "b = brf p \<or> erf p = Some (ErfTs b)"
  shows "crf b = np_cumsum (irf b)"
proof -
  from regress_deconv_fit[OF run] obtain c covar lag_t nm where
    bb: "brf_bundle c covar lag_t nm = Inr (brf p)"
    and eb: "\<forall>b. erf p = Some (ErfTs b) \<longrightarrow> erf_bundle c covar lag_t nm = Inr b"
    by blast
  from b show ?thesis
  proof
    assume "b = brf p"
    with brf_bundle_Inr[OF bb] show ?thesis by (auto dest: response_of_Inr)
  next
    assume "erf p = Some (ErfTs b)"
    with eb have "erf_bundle c covar lag_t nm = Inr b" by blast
    then show ?thesis unfolding erf_bundle_def by (auto dest: response_of_Inr)
  qed
qed

section \<open>Evaluated calls of \<^verbatim>\<open>regress_deconv\<close>\<close>

lemmas eval_defs =
  regress_deconv_def regular_check_def length_check_def deconv_hals_def deconv_ts_def
  np_min_def np_max_def np_around6_def np_round_def sample_interval_def derivative_def
  lag_steps_def py_int_def lag_columns_def hals_regressors_def ts_regressors_def ts_check_def
  fit_and_correct_def const_fit_def const_svd_def cond_number_def np_divide_def
  cond_warnings_def corrected_heads_def head_correction_def np_dot_def np_cumsum_def
  broadcast2_def recentre_def np_nanmean_def brf_bundle_def erf_bundle_def fancy_index_def
  covar_block_def slice_def response_of_def cum_var_def cum_var_at_def leading_block_def
  np_tril_below_def np_sum2_def np_sqrt_def np_linspace0_def hals_erf_def cos_columns_def
  sin_columns_def Let_def

text \<open>
  Four daily samples, no Earth tides, a maximum lag of one day: the solver returned the
  coefficients \<open>[0, -1, -3]\<close>.
\<close>

lemma deconv_baro_example:
  "regress_deconv (const_fit [0, -1, -3] [[1, 0, 0], [0, 4, 6], [0, 6, 9]]) (const_svd [3, 1]) []
      [0, 1, 2, 3] [1, 2, 4, 3] [0, 1, 0, 2] None 24 None None
   = Inr ([5 / 2, 5 / 2, 5 / 2, 5 / 2],
          \<lparr> brf = \<lparr> lag = [0, 24], irf = [-1, -3], irf_stdev = [Some 2, Some 3],
                    crf = [-1, -4], crf_stdev = [Some 2, Some 5] \<rparr>,
             erf = None \<rparr>, [])"
  by (simp add: eval_defs upt_rec)

text \<open>
  Six daily samples with an Earth-tide series in mode \<^verbatim>\<open>ts\<close>, a maximum lag of one
  day: the solver returned the coefficients \<open>[0, 1, 2, 3, 4]\<close>.
\<close>

lemma deconv_ts_example:
  "regress_deconv
      (const_fit [0, 1, 2, 3, 4]
         [[1, 0, 0, 0, 0], [0, 4, 6, 0, 0], [0, 6, 9, 0, 0], [0, 0, 0, 1, 2], [0, 0, 0, 2, 16]])
      (const_svd [3, 1]) []
      [0, 1, 2, 3, 4, 5] [0, -1, 0, 4, 4, 4] [0, 1, 1, 1, 1, 1] (Some [0, 0, 1, 1, 1, 1])
      24 (Some ''ts'') None
   = Inr ([11 / 6, 11 / 6, 11 / 6, 11 / 6, 11 / 6, 11 / 6],
          \<lparr> brf = \<lparr> lag = [0, 24], irf = [1, 2], irf_stdev = [Some 2, Some 3],
                    crf = [1, 3], crf_stdev = [Some 2, Some 5] \<rparr>,
             erf = Some (ErfTs \<lparr> lag = [0, 24], irf = [3, 4], irf_stdev = [Some 1, Some 4],
                    crf = [3, 7], crf_stdev = [Some 1, Some (sqrt 21)] \<rparr>) \<rparr>, [])"
  by (simp add: eval_defs upt_rec)

lemma const_fit_shapes:
  "\<forall>n Z y p0 c' covar'. const_fit c covar n Z t y p0 = Inr (c', covar') \<longrightarrow>
      c' = c \<and> covar' = covar \<and> length p0 = length c"
  by (simp add: const_fit_def)

section \<open>The length precondition of \<^verbatim>\<open>regress_deconv\<close>\<close>

text \<open>
  Claim C1 says that \<^verbatim>\<open>regress_deconv\<close> raises its descriptive error whenever two of
  the time, head and pressure series differ in length, also when time and heads agree
  and only the pressure series differs. The chained comparison of line 524 is true only
  when the time series differs from the heads and the heads differ from the pressure
  series. A call with five time stamps and four heads and pressures passes the check and
  returns a corrected series; a call with four time stamps, four heads and three
  pressures passes the check as well and ends in the ValueError of the subtraction of
  arrays of different shapes at line 593, not in the descriptive error.
\<close>

theorem length_check_accepts_unequal_lengths:
  "regress_deconv (const_fit [0, -1, -3] [[1, 0, 0], [0, 4, 6], [0, 6, 9]]) (const_svd [3, 1]) []
      [0, 1, 2, 3, 4] [1, 2, 4, 3] [0, 1, 0, 2] None 24 None None
   = Inr ([5 / 2, 5 / 2, 5 / 2, 5 / 2],
          \<lparr> brf = \<lparr> lag = [0, 24], irf = [-1, -3], irf_stdev = [Some 2, Some 3],
                    crf = [-1, -4], crf_stdev = [Some 2, Some 5] \<rparr>,
             erf = None \<rparr>, [])
   \<and> length_check [0, 1, 2, 3] [1, 2, 4, 3] [0, 1, 0] = Inr ()
   \<and> regress_deconv (const_fit [0, -1] [[1, 0], [0, 4]]) (const_svd [3, 1]) []
      [0, 1, 2, 3] [1, 2, 4, 3] [0, 1, 0] None 0 None None = Inl ValueError"
  by (simp add: eval_defs upt_rec)

section \<open>The re-centring invariant\<close>

text \<open>
  Claim C3: for every valid input (regular sampling, the three series of equal length),
  in mode \<^verbatim>\<open>hals\<close> and in mode \<^verbatim>\<open>ts\<close>, with any solver, the corrected heads that
  \<^verbatim>\<open>regress_deconv\<close> returns have the mean of the input heads; they also have the length
  of the input heads. Regular sampling is part of the hypothesis that the call returns.
\<close>

theorem regress_deconv_mean_preserved:
  assumes run: "regress_deconv cf sv etfqs tf GW BP ET lag_h m fqs = Inr (WLc, p, ws)"
    and len: "length tf = length GW" "length GW = length BP"
  shows "np_nanmean WLc = np_nanmean GW \<and> length WLc = length GW"
proof -
  from regress_deconv_Inr[OF run] have reg: "regular_check tf = Inr ()"
    and br: "deconv_hals cf sv tf GW BP (\<not> (ET = None \<and> m = None)) lag_h
                (case fqs of None \<Rightarrow> etfqs | Some f \<Rightarrow> f) = Inr (WLc, p, ws)
             \<or> deconv_ts cf sv tf GW BP ET True lag_h = Inr (WLc, p, ws)"
    by auto
  from regular_check_Inr[OF reg] len have ne: "GW \<noteq> []"
    and n: "length GW = Suc (length BP - 1)"
    by auto
  from br obtain X c covar condnum dt where
    "fit_and_correct cf sv (length (derivative BP dt)) X tf (derivative GW dt) dt GW
       = Inr (c, covar, condnum, WLc)"
    by (auto dest!: deconv_hals_Inr deconv_ts_Inr)
  then have ch: "corrected_heads (length BP - 1) X c dt GW = Inr WLc"
    by (auto dest: fit_and_correct_Inr simp: derivative_def)
  from corrected_heads_mean[OF ch ne] corrected_heads_length[OF ch n] show ?thesis by simp
qed

theorem regress_deconv_mean_preserved_example:
  "np_nanmean [5 / 2, 5 / 2, 5 / 2, 5 / 2] = np_nanmean [1, 2, 4, 3]
   \<and> length [5 / 2, 5 / 2, 5 / 2, 5 / 2 :: real] = length [1, 2, 4, 3 :: real]"
  using regress_deconv_mean_preserved [OF deconv_baro_example] by simp

section \<open>The cumulative response\<close>

text \<open>
  Claim C5: in every response bundle that \<^verbatim>\<open>regress_deconv\<close> returns (the barometric
  one, and the tidal one of mode \<^verbatim>\<open>ts\<close>), the cumulative response has one entry per
  lag, its first entry is the first instantaneous value, entry \<open>i \<ge> 1\<close> is entry \<open>i - 1\<close>
  plus the instantaneous value at \<open>i\<close>, and its last entry is the sum of all instantaneous
  values.
\<close>

theorem cumulative_response_additive:
  assumes run: "regress_deconv cf sv etfqs tf GW BP ET lag_h m fqs = Inr (WLc, p, ws)"
    and b: "b = brf p \<or> erf p = Some (ErfTs b)"
  shows "length (crf b) = length (irf b)
     \<and> (irf b \<noteq> [] \<longrightarrow> crf b ! 0 = irf b ! 0 \<and> last (crf b) = sum_list (irf b))
     \<and> (0 < i \<and> i < length (irf b) \<longrightarrow> crf b ! i = crf b ! (i - 1) + irf b ! i)"
  unfolding bundle_cumsum [OF run b]
  by (simp add: np_cumsum_0 np_cumsum_step np_cumsum_last length_np_cumsum)

theorem cumulative_response_additive_example:
  "crf \<lparr> lag = [0, 24], irf = [-1, -3], irf_stdev = [Some 2, Some 3],
         crf = [-1, -4], crf_stdev = [Some 2, Some 5] \<rparr> ! 1 = -1 + (-3 :: real)
   \<and> last [-1, -4 :: real] = sum_list [-1, -3]"
  using cumulative_response_additive [OF deconv_baro_example,
    where b = "\<lparr> lag = [0, 24], irf = [-1, -3], irf_stdev = [Some 2, Some 3],
         crf = [-1, -4], crf_stdev = [Some 2, Some 5] \<rparr>" and i = 1]
  by simp

section \<open>The variance of the cumulative response\<close>

lemma np_diagonal_props:
  "\<forall>j<length m. j < length (m ! j) \<Longrightarrow>
     length (np_diagonal m) = length m \<and> (\<forall>j<length m. np_diagonal m ! j = m ! j ! j)"
proof (induction m rule: np_diagonal.induct)
  case 1
  show ?case by simp
next
  case (2 r rs)
  from "2.prems" have "0 < length ((r # rs) ! 0)" by fastforce
  then obtain x xs where r: "r = x # xs" by (cases r) auto
  have pre: "\<forall>j<length (map tl rs). j < length (map tl rs ! j)"
  proof (intro allI impI)
    fix j assume j: "j < length (map tl rs)"
    then have "Suc j < length (r # rs)" by simp
    with "2.prems" have "Suc j < length ((r # rs) ! Suc j)" by blast
    then show "j < length (map tl rs ! j)" using j by simp
  qed
  from "2.IH"[OF r pre] have IHl: "length (np_diagonal (map tl rs)) = length rs"
    and IHn: "\<forall>j<length rs. np_diagonal (map tl rs) ! j = map tl rs ! j ! j" by simp_all
  show ?case
  proof (intro conjI allI impI)
    show "length (np_diagonal (r # rs)) = length (r # rs)" using r IHl by simp
  next
    fix j assume j: "j < length (r # rs)"
    show "np_diagonal (r # rs) ! j = (r # rs) ! j ! j"
    proof (cases j)
      case 0
      then show ?thesis using r by simp
    next
      case (Suc k)
      with j have k: "k < length rs" by simp
      with pre have "k < length (tl (rs ! k))" by simp
      then have "tl (rs ! k) ! k = rs ! k ! Suc k" by (rule nth_tl)
      with IHn k Suc r show ?thesis by simp
    qed
  qed
qed

lemma sum_list_np_diagonal:
  assumes "\<forall>j<length m. j < length (m ! j)"
  shows "sum_list (np_diagonal m) = (\<Sum>j<length m. m ! j ! j)"
proof -
  from np_diagonal_props[OF assms] have l: "length (np_diagonal m) = length m"
    and n: "\<forall>j<length m. np_diagonal m ! j = m ! j ! j" by simp_all
  have "sum_list (np_diagonal m) = (\<Sum>j = 0..<length (np_diagonal m). np_diagonal m ! j)"
    by (rule sum_list_sum_nth)
  also have "\<dots> = (\<Sum>j = 0..<length m. m ! j ! j)" using l n by (intro sum.cong) auto
  finally show ?thesis by (simp add: atLeast0LessThan)
qed

lemma np_sum2_tril_from:
  "np_sum2 (tril_from k m) = (\<Sum>j<length m. sum_list (take (k + j) (m ! j)))"
proof (induction m arbitrary: k)
  case Nil
  show ?case by (simp add: np_sum2_def)
next
  case (Cons r rs)
  have "np_sum2 (tril_from k (r # rs)) = sum_list (take k r) + np_sum2 (tril_from (Suc k) rs)"
    by (simp add: np_sum2_def sum_list_replicate)
  also have "\<dots> = sum_list (take k r) + (\<Sum>j<length rs. sum_list (take (Suc k + j) (rs ! j)))"
    by (simp only: Cons.IH)
  also have "\<dots> = (\<Sum>j<length (r # rs). sum_list (take (k + j) ((r # rs) ! j)))"
    by (simp add: sum.lessThan_Suc_shift del: sum.lessThan_Suc)
  finally show ?case .
qed

lemma sum_list_take_nth:
  assumes "j \<le> length xs"
  shows "sum_list (take j xs) = (\<Sum>l<j. (xs :: real list) ! l)"
proof -
  have "sum_list (take j xs) = (\<Sum>l = 0..<length (take j xs). take j xs ! l)"
    by (rule sum_list_sum_nth)
  also have "\<dots> = (\<Sum>l = 0..<j. xs ! l)" using assms by (intro sum.cong) auto
  finally show ?thesis by (simp add: atLeast0LessThan)
qed

lemma cum_var_at_eq:
  assumes i: "i < length C" and rows: "\<forall>k\<le>i. i < length (C ! k)"
  shows "cum_var_at C i = propagated_variance C i"
proof -
  define B where "B = leading_block (i + 1) C"
  have lB: "length B = Suc i" using i by (simp add: B_def leading_block_def)
  have Bk: "B ! k = take (Suc i) (C ! k)" if "k \<le> i" for k
    using that i by (simp add: B_def leading_block_def)
  have lBk: "length (B ! k) = Suc i" if "k \<le> i" for k
    using that rows[rule_format, OF that] by (simp add: Bk min_def)
  have sq: "\<forall>j<length B. j < length (B ! j)" using lB lBk by auto
  have "sum_list (np_diagonal B) = (\<Sum>j<Suc i. B ! j ! j)"
    using sum_list_np_diagonal[OF sq] lB by simp
  also have "\<dots> = (\<Sum>j<Suc i. C ! j ! j)" by (intro sum.cong) (auto simp: Bk)
  finally have d: "sum_list (np_diagonal B) = (\<Sum>k\<le>i. C ! k ! k)"
    by (simp add: lessThan_Suc_atMost)
  have "np_sum2 (np_tril_below B) = (\<Sum>j<Suc i. sum_list (take j (B ! j)))"
    using np_sum2_tril_from[of 0 B] lB by (simp add: np_tril_below_def)
  also have "\<dots> = (\<Sum>j<Suc i. sum_list (take j (C ! j)))"
    by (intro sum.cong) (auto simp: Bk min_def)
  also have "\<dots> = (\<Sum>j<Suc i. \<Sum>l<j. C ! j ! l)"
  proof (intro sum.cong refl)
    fix j assume "j \<in> {..<Suc i}"
    then have "j \<le> i" by simp
    with rows have "j \<le> length (C ! j)" by (meson less_imp_le_nat order_trans)
    then show "sum_list (take j (C ! j)) = (\<Sum>l<j. C ! j ! l)" by (rule sum_list_take_nth)
  qed
  finally have t: "np_sum2 (np_tril_below B) = (\<Sum>k\<le>i. \<Sum>l<k. C ! k ! l)"
    by (simp add: lessThan_Suc_atMost)
  show ?thesis
    unfolding cum_var_at_def propagated_variance_def Let_def B_def[symmetric] d t ..
qed

lemma covar_block_dims:
  assumes "length covar = L" "\<forall>row\<in>set covar. length row = L" "hi \<le> L" "lo \<le> hi"
  shows "length (covar_block lo hi covar) = hi - lo"
    and "k < hi - lo \<Longrightarrow> length (covar_block lo hi covar ! k) = hi - lo"
proof -
  show "length (covar_block lo hi covar) = hi - lo"
    using assms by (simp add: covar_block_def slice_def)
  assume k: "k < hi - lo"
  with assms have "lo + k < length covar" by simp
  then have "covar ! (lo + k) \<in> set covar" by (rule nth_mem)
  with assms have "length (covar ! (lo + k)) = L" by blast
  with k assms show "length (covar_block lo hi covar ! k) = hi - lo"
    by (simp add: covar_block_def slice_def)
qed

lemma response_of_crf_stdev:
  assumes r: "response_of lag_t rf (covar_block lo hi covar) shape nm = Inr b"
    and d: "length covar = L" "\<forall>row\<in>set covar. length row = L" "hi \<le> L" "hi = lo + nm"
    and i: "i < nm"
  shows "crf_stdev b ! i = np_sqrt (propagated_variance (covar_block lo hi covar) i)"
proof -
  from d have lo: "lo \<le> hi" and nm: "hi - lo = nm" by simp_all
  from response_of_Inr[OF r] i
  have "crf_stdev b ! i = np_sqrt (cum_var_at (covar_block lo hi covar) i)"
    by (simp add: nth_append)
  moreover have "cum_var_at (covar_block lo hi covar) i = propagated_variance (covar_block lo hi covar) i"
  proof (rule cum_var_at_eq)
    show "i < length (covar_block lo hi covar)"
      using covar_block_dims(1)[OF d(1,2,3) lo] i nm by simp
    show "\<forall>k\<le>i. i < length (covar_block lo hi covar ! k)"
      using covar_block_dims(2)[OF d(1,2,3) lo] i nm by auto
  qed
  ultimately show ?thesis by simp
qed

lemma fancy_index_Inr: "fancy_index xs ks = Inr ys \<Longrightarrow> ys = map ((!) xs) ks"
  by (simp add: fancy_index_def split: if_splits)

lemma np_diagonal_square:
  assumes "length M = k" "\<forall>j<k. length (M ! j) = k"
  shows "length (np_diagonal M) = k"
proof -
  from assms have "\<forall>j<length M. j < length (M ! j)" by simp
  from np_diagonal_props[OF this] assms(1) show ?thesis by simp
qed

lemma response_of_stdev_length:
  "response_of lag_t rf rf_covar shape nm = Inr b \<Longrightarrow> length (crf_stdev b) = shape"
  by (auto dest!: response_of_Inr)

text \<open>
  Claim C4: for every response bundle that \<^verbatim>\<open>regress_deconv\<close> returns and every lag
  index \<open>i\<close>, the reported standard deviation of the cumulative response at \<open>i\<close> is the
  square root of the propagated variance of the bundle's block of the covariance matrix:
  the sum of the first \<open>i + 1\<close> diagonal entries plus twice the sum of the entries strictly
  below the diagonal of the leading \<open>(i + 1) \<times> (i + 1)\<close> block. This holds for the
  barometric bundle, whose block are the rows and columns \<open>1 \<dots> nm\<close>, and for the tidal
  bundle of mode \<^verbatim>\<open>ts\<close>, whose block are the rows and columns \<open>nm + 1 \<dots> 2 nm\<close>.
  The hypothesis on the solver is the contract of \<^verbatim>\<open>curve_fit\<close>: one coefficient per
  initial value and a square covariance matrix of that size.
\<close>

theorem cumulative_stdev_propagated:
  assumes run: "regress_deconv cf sv etfqs tf GW BP ET lag_h m fqs = Inr (WLc, p, ws)"
    and shapes: "\<forall>n Z y p0 c covar. cf n Z tf y p0 = Inr (c, covar) \<longrightarrow>
        length c = length p0 \<and> length covar = length c
      \<and> (\<forall>row\<in>set covar. length row = length c)"
  shows "let nm = length (irf (brf p)) in
     \<exists>n Z y p0 c covar.
        cf n Z tf y p0 = Inr (c, covar)
      \<and> irf (brf p) = map ((!) c) [1..<nm + 1]
      \<and> length (crf_stdev (brf p)) = nm
      \<and> (\<forall>i<nm. crf_stdev (brf p) ! i
                  = np_sqrt (propagated_variance (covar_block 1 (nm + 1) covar) i))
      \<and> (\<forall>e. erf p = Some (ErfTs e) \<longrightarrow>
             irf e = slice (nm + 1) (2 * nm + 1) c
           \<and> length (crf_stdev e) = nm
           \<and> (\<forall>i<nm. crf_stdev e ! i
                  = np_sqrt (propagated_variance (covar_block (nm + 1) (2 * nm + 1) covar) i)))"
proof -
  from regress_deconv_fit[OF run] obtain n Z y p0 c covar lag_t k where
    cf: "cf n Z tf y p0 = Inr (c, covar)" and k: "k + 1 \<le> length p0"
    and bb: "brf_bundle c covar lag_t k = Inr (brf p)"
    and eb: "\<forall>b. erf p = Some (ErfTs b) \<longrightarrow>
               erf_bundle c covar lag_t k = Inr b \<and> 2 * k + 1 \<le> length p0"
    by blast
  from shapes cf have lc: "length c = length p0" and lcov: "length covar = length c"
    and rows: "\<forall>row\<in>set covar. length row = length c" by blast+
  from brf_bundle_Inr[OF bb] obtain rf where fi: "fancy_index c [1..<k + 1] = Inr rf"
    and ro: "response_of lag_t rf (covar_block 1 (k + 1) covar)
               (length (np_diagonal (covar_block 1 (k + 1) covar))) k = Inr (brf p)"
    by blast
  from fancy_index_Inr[OF fi] have rf: "rf = map ((!) c) [1..<k + 1]" .
  from response_of_Inr[OF ro] have irf: "irf (brf p) = rf" by simp
  from irf rf have nm: "length (irf (brf p)) = k" by simp
  from k lc have k1: "k + 1 \<le> length c" by simp
  have bl: "length (covar_block 1 (k + 1) covar) = k"
    using covar_block_dims(1)[OF lcov rows k1] by simp
  have bj: "\<forall>j<k. length (covar_block 1 (k + 1) covar ! j) = k"
    using covar_block_dims(2)[OF lcov rows k1] by simp
  have shape: "length (np_diagonal (covar_block 1 (k + 1) covar)) = k"
    using bl bj by (rule np_diagonal_square)
  have b1: "length (crf_stdev (brf p)) = k"
    using response_of_stdev_length[OF ro] shape by simp
  have b2: "\<forall>i<k. crf_stdev (brf p) ! i
              = np_sqrt (propagated_variance (covar_block 1 (k + 1) covar) i)"
  proof (intro allI impI)
    fix i assume i: "i < k"
    show "crf_stdev (brf p) ! i = np_sqrt (propagated_variance (covar_block 1 (k + 1) covar) i)"
      by (rule response_of_crf_stdev[OF ro lcov rows k1 _ i]) simp
  qed
  have b3: "\<forall>e. erf p = Some (ErfTs e) \<longrightarrow>
             irf e = slice (k + 1) (2 * k + 1) c
           \<and> length (crf_stdev e) = k
           \<and> (\<forall>i<k. crf_stdev e ! i
                  = np_sqrt (propagated_variance (covar_block (k + 1) (2 * k + 1) covar) i))"
  proof (intro allI impI)
    fix e assume "erf p = Some (ErfTs e)"
    with eb have ebu: "erf_bundle c covar lag_t k = Inr e" and k2: "2 * k + 1 \<le> length p0"
      by simp_all
    from ebu have re: "response_of lag_t (slice (k + 1) (2 * k + 1) c)
        (covar_block (k + 1) (2 * k + 1) covar)
        (length (np_diagonal (covar_block 1 (k + 1) covar))) k = Inr e"
      by (simp add: erf_bundle_def)
    from k2 lc have k2c: "2 * k + 1 \<le> length c" by simp
    have e1: "irf e = slice (k + 1) (2 * k + 1) c" using response_of_Inr[OF re] by simp
    have e2: "length (crf_stdev e) = k" using response_of_stdev_length[OF re] shape by simp
    have e3: "\<forall>i<k. crf_stdev e ! i
                = np_sqrt (propagated_variance (covar_block (k + 1) (2 * k + 1) covar) i)"
    proof (intro allI impI)
      fix i assume i: "i < k"
      show "crf_stdev e ! i
              = np_sqrt (propagated_variance (covar_block (k + 1) (2 * k + 1) covar) i)"
        by (rule response_of_crf_stdev[OF re lcov rows k2c _ i]) simp
    qed
    from e1 e2 e3 show "irf e = slice (k + 1) (2 * k + 1) c
           \<and> length (crf_stdev e) = k
           \<and> (\<forall>i<k. crf_stdev e ! i
                  = np_sqrt (propagated_variance (covar_block (k + 1) (2 * k + 1) covar) i))"
      by blast
  qed
  from cf irf rf b1 b2 b3 show ?thesis unfolding Let_def nm by blast
qed

theorem cumulative_stdev_propagated_example:
  "np_sqrt (propagated_variance (covar_block 1 3
      [[1, 0, 0, 0, 0], [0, 4, 6, 0, 0], [0, 6, 9, 0, 0], [0, 0, 0, 1, 2], [0, 0, 0, 2, 16]]) 1)
     = Some 5
   \<and> np_sqrt (propagated_variance (covar_block 3 5
      [[1, 0, 0, 0, 0], [0, 4, 6, 0, 0], [0, 6, 9, 0, 0], [0, 0, 0, 1, 2], [0, 0, 0, 2, 16]]) 1)
     = Some (sqrt 21)"
proof -
  let ?C = "[0, 1, 2, 3, 4] :: real list"
  let ?COV = "[[1, 0, 0, 0, 0], [0, 4, 6, 0, 0], [0, 6, 9, 0, 0], [0, 0, 0, 1, 2],
               [0, 0, 0, 2, 16]] :: real list list"
  let ?B = "\<lparr> lag = [0, 24], irf = [1, 2], irf_stdev = [Some 2, Some 3],
                    crf = [1, 3], crf_stdev = [Some 2, Some 5] \<rparr> :: response"
  let ?E = "\<lparr> lag = [0, 24], irf = [3, 4], irf_stdev = [Some 1, Some 4],
                    crf = [3, 7], crf_stdev = [Some 1, Some (sqrt 21)] \<rparr> :: response"
  have shapes: "\<forall>n Z y p0 c covar.
      const_fit ?C ?COV n Z [0, 1, 2, 3, 4, 5] y p0 = Inr (c, covar) \<longrightarrow>
      length c = length p0 \<and> length covar = length c
      \<and> (\<forall>row\<in>set covar. length row = length c)"
    using const_fit_shapes[of ?C ?COV] by fastforce
  have nm: "length (irf (brf \<lparr> brf = ?B, erf = Some (ErfTs ?E) \<rparr>)) = 2" by simp
  note th0 = cumulative_stdev_propagated [OF deconv_ts_example]
  note th = th0 [OF shapes, unfolded Let_def nm]
  from th obtain n Z y p0 c covar where
    cf: "const_fit ?C ?COV n Z [0, 1, 2, 3, 4, 5] y p0 = Inr (c, covar)"
    and b: "\<forall>i<2. crf_stdev (brf \<lparr> brf = ?B, erf = Some (ErfTs ?E) \<rparr>) ! i
               = np_sqrt (propagated_variance (covar_block 1 (2 + 1) covar) i)"
    and e: "\<forall>e. erf \<lparr> brf = ?B, erf = Some (ErfTs ?E) \<rparr> = Some (ErfTs e) \<longrightarrow>
             irf e = slice (2 + 1) (2 * 2 + 1) c
           \<and> length (crf_stdev e) = 2
           \<and> (\<forall>i<2. crf_stdev e ! i
                  = np_sqrt (propagated_variance (covar_block (2 + 1) (2 * 2 + 1) covar) i))"
    by blast
  from cf const_fit_shapes[of ?C ?COV] have covar: "covar = ?COV" by blast
  from b[rule_format, of 1] have b1: "crf_stdev (brf \<lparr> brf = ?B, erf = Some (ErfTs ?E) \<rparr>) ! 1
               = np_sqrt (propagated_variance (covar_block 1 (2 + 1) covar) 1)"
    by simp
  have "erf \<lparr> brf = ?B, erf = Some (ErfTs ?E) \<rparr> = Some (ErfTs ?E)" by simp
  with e have e0: "\<forall>i<2. crf_stdev ?E ! i
                  = np_sqrt (propagated_variance (covar_block (2 + 1) (2 * 2 + 1) covar) i)"
    by blast
  from e0[rule_format, of 1] have e1: "crf_stdev ?E ! 1
                  = np_sqrt (propagated_variance (covar_block (2 + 1) (2 * 2 + 1) covar) 1)"
    by simp
  from b1 e1 show ?thesis unfolding covar by simp
qed

section \<open>The structure of a returning call of \<^verbatim>\<open>harmonic_lsqr\<close>\<close>

lemma assign_column_Inr: "assign_column N a = Inr col \<Longrightarrow> length col = N"
  by (auto simp: assign_column_def split: if_splits)

lemma harmonic_columns_Inr:
  "harmonic_columns N tf f = Inr cs \<Longrightarrow>
     length cs = 2 * length f
   \<and> (\<forall>j<length f. assign_column N (map (\<lambda>t. cos (f ! j * t)) tf) = Inr (cs ! (2 * j))
                  \<and> assign_column N (map (\<lambda>t. sin (f ! j * t)) tf) = Inr (cs ! (2 * j + 1)))"
proof (induction f arbitrary: cs)
  case Nil
  then show ?case by simp
next
  case (Cons fj fs)
  from Cons.prems obtain cj sj rest where
    cj: "assign_column N (map (\<lambda>t. cos (fj * t)) tf) = Inr cj"
    and sj: "assign_column N (map (\<lambda>t. sin (fj * t)) tf) = Inr sj"
    and rest: "harmonic_columns N tf fs = Inr rest" and cs: "cs = cj # sj # rest"
    by (auto simp: bindE_Inr_iff)
  from Cons.IH[OF rest] have l: "length rest = 2 * length fs"
    and n: "\<forall>j<length fs. assign_column N (map (\<lambda>t. cos (fs ! j * t)) tf) = Inr (rest ! (2 * j))
                  \<and> assign_column N (map (\<lambda>t. sin (fs ! j * t)) tf) = Inr (rest ! (2 * j + 1))"
    by simp_all
  show ?case
  proof (intro conjI allI impI)
    show "length cs = 2 * length (fj # fs)" using l cs by simp
  next
    fix j assume j: "j < length (fj # fs)"
    show "assign_column N (map (\<lambda>t. cos ((fj # fs) ! j * t)) tf) = Inr (cs ! (2 * j))"
    proof (cases j)
      case 0
      with cj cs show ?thesis by simp
    next
      case (Suc k)
      with j have "k < length fs" by simp
      with n have "assign_column N (map (\<lambda>t. cos (fs ! k * t)) tf) = Inr (rest ! (2 * k))"
        by blast
      with Suc cs show ?thesis by simp
    qed
  next
    fix j assume j: "j < length (fj # fs)"
    show "assign_column N (map (\<lambda>t. sin ((fj # fs) ! j * t)) tf) = Inr (cs ! (2 * j + 1))"
    proof (cases j)
      case 0
      with sj cs show ?thesis by simp
    next
      case (Suc k)
      with j have "k < length fs" by simp
      with n have "assign_column N (map (\<lambda>t. sin (fs ! k * t)) tf) = Inr (rest ! (2 * k + 1))"
        by blast
      with Suc cs show ?thesis by simp
    qed
  qed
qed

lemma evens_odds:
  "length xs = 2 * n \<Longrightarrow>
     length (evens xs) = n \<and> length (odds xs) = n
   \<and> (\<forall>j<n. evens xs ! j = xs ! (2 * j) \<and> odds xs ! j = xs ! (2 * j + 1))"
proof (induction n arbitrary: xs)
  case 0
  then show ?case by simp
next
  case (Suc n)
  then obtain x y ys where xs: "xs = x # y # ys" and ys: "length ys = 2 * n"
    by (cases xs rule: evens.cases) auto
  from Suc.IH[OF ys] have l: "length (evens ys) = n" "length (odds ys) = n"
    and nth: "\<forall>j<n. evens ys ! j = ys ! (2 * j) \<and> odds ys ! j = ys ! (2 * j + 1)"
    by simp_all
  show ?case
  proof (intro conjI allI impI)
    show "length (evens xs) = Suc n" using l xs by simp
    show "length (odds xs) = Suc n" using l xs by simp
  next
    fix j assume j: "j < Suc n"
    show "evens xs ! j = xs ! (2 * j)"
    proof (cases j)
      case 0
      with xs show ?thesis by simp
    next
      case (Suc k)
      with j nth have "evens ys ! k = ys ! (2 * k)" by simp
      with Suc xs show ?thesis by simp
    qed
  next
    fix j assume j: "j < Suc n"
    show "odds xs ! j = xs ! (2 * j + 1)"
    proof (cases j)
      case 0
      with xs show ?thesis by simp
    next
      case (Suc k)
      with j nth have "odds ys ! k = ys ! (2 * k + 1)" by simp
      with Suc xs show ?thesis by simp
    qed
  qed
qed

lemma hals_result_of_Inr:
  assumes "hals_result_of N freqs Phi (theta, residuals, rank, singular) = Inr (r, ws)"
  shows "\<exists>r0 rs condnum y cc.
      residuals = r0 # rs
    \<and> cond_number singular = Inr condnum
    \<and> np_dot N Phi theta = Inr y
    \<and> theta \<noteq> []
    \<and> broadcast2 (\<lambda>a b. Complex b a) (evens (butlast theta)) (odds (butlast theta)) = Inr cc
    \<and> r = \<lparr> freq = freqs, complex_coef = cc, err_var = np_divide r0 (of_nat N),
             cond_num = condnum, offset = last theta, y_model = y \<rparr>
    \<and> ws = cond_warnings condnum"
  using assms
  by (auto simp: hals_result_of_def bindE_Inr_iff Let_def split: list.splits if_splits)

lemma harmonic_lsqr_Inr:
  assumes "harmonic_lsqr solve tf data freqs = Inr res"
  shows "\<exists>t0 ts Phi.
      tf = t0 # ts
    \<and> design_matrix (length data) (map (\<lambda>t. t - of_int \<lfloor>t0\<rfloor>) tf) (map (\<lambda>q. q * 2 * pi) freqs) = Inr Phi
    \<and> hals_result_of (length data) freqs Phi (solve (length data) Phi data) = Inr res"
proof (cases tf)
  case Nil
  with assms show ?thesis by (simp add: harmonic_lsqr_def)
next
  case (Cons t0 ts)
  with assms show ?thesis
    by (simp add: harmonic_lsqr_def Let_def bindE_Inr_iff)
qed

lemma np_dot_Inr_length: "np_dot n cols w = Inr y \<Longrightarrow> length cols = length w \<and> length y = n"
  by (auto simp: np_dot_def split: if_splits)

lemma broadcast2_same_Inr:
  "broadcast2 f xs ys = Inr zs \<Longrightarrow> length xs = length ys \<Longrightarrow> zs = map2 f xs ys"
  by (simp add: broadcast2_def)

lemma design_matrix_Inr:
  assumes "design_matrix N tf f = Inr Phi"
  shows "length Phi = 2 * length f + 1
       \<and> (\<forall>j<length f. assign_column N (map (\<lambda>t. cos (f ! j * t)) tf) = Inr (Phi ! (2 * j))
                  \<and> assign_column N (map (\<lambda>t. sin (f ! j * t)) tf) = Inr (Phi ! (2 * j + 1)))
       \<and> Phi ! (2 * length f) = replicate N 1"
proof -
  from assms obtain cs where hc: "harmonic_columns N tf f = Inr cs"
    and Phi: "Phi = cs @ [replicate N 1]"
    by (auto simp: design_matrix_def bindE_Inr_iff)
  from harmonic_columns_Inr[OF hc] have l: "length cs = 2 * length f"
    and n: "\<forall>j<length f. assign_column N (map (\<lambda>t. cos (f ! j * t)) tf) = Inr (cs ! (2 * j))
                  \<and> assign_column N (map (\<lambda>t. sin (f ! j * t)) tf) = Inr (cs ! (2 * j + 1))"
    by simp_all
  have "\<forall>j<length f. Phi ! (2 * j) = cs ! (2 * j) \<and> Phi ! (2 * j + 1) = cs ! (2 * j + 1)"
    using l by (simp add: Phi nth_append)
  with n l show ?thesis by (simp add: Phi nth_append)
qed

lemma recombine_coefficients:
  assumes len: "length theta = 2 * n + 1"
    and b: "broadcast2 (\<lambda>a b. Complex b a) (evens (butlast theta)) (odds (butlast theta)) = Inr cc"
  shows "length cc = n \<and> (\<forall>j<n. cc ! j = Complex (theta ! (2 * j + 1)) (theta ! (2 * j)))
       \<and> last theta = theta ! (2 * n)"
proof -
  from len have lb: "length (butlast theta) = 2 * n" by simp
  from evens_odds[OF lb] have le: "length (evens (butlast theta)) = n"
    and lo: "length (odds (butlast theta)) = n"
    and nth: "\<forall>j<n. evens (butlast theta) ! j = butlast theta ! (2 * j)
                  \<and> odds (butlast theta) ! j = butlast theta ! (2 * j + 1)"
    by simp_all
  from broadcast2_same_Inr[OF b] le lo
  have cc: "cc = map2 (\<lambda>a b. Complex b a) (evens (butlast theta)) (odds (butlast theta))"
    by simp
  have l: "length cc = n" using le lo by (simp add: cc)
  have c: "\<forall>j<n. cc ! j = Complex (theta ! (2 * j + 1)) (theta ! (2 * j))"
  proof (intro allI impI)
    fix j assume j: "j < n"
    with le lo have "cc ! j = Complex (odds (butlast theta) ! j) (evens (butlast theta) ! j)"
      by (simp add: cc)
    also from nth j have "\<dots> = Complex (butlast theta ! (2 * j + 1)) (butlast theta ! (2 * j))"
      by simp
    also from j lb have "\<dots> = Complex (theta ! (2 * j + 1)) (theta ! (2 * j))"
      by (simp add: nth_butlast)
    finally show "cc ! j = Complex (theta ! (2 * j + 1)) (theta ! (2 * j))" .
  qed
  from len have "theta \<noteq> []" by auto
  then have "last theta = theta ! (length theta - 1)" by (rule last_conv_nth)
  with len have "last theta = theta ! (2 * n)" by simp
  with l c show ?thesis by blast
qed

lemma harmonic_lsqr_structure:
  assumes run: "harmonic_lsqr solve tf data freqs = Inr (r, ws)"
  shows "\<exists>Phi theta residuals rank singular.
      tf \<noteq> []
    \<and> design_matrix (length data) (map (\<lambda>t. t - of_int \<lfloor>hd tf\<rfloor>) tf)
         (map (\<lambda>q. q * 2 * pi) freqs) = Inr Phi
    \<and> solve (length data) Phi data = (theta, residuals, rank, singular)
    \<and> residuals \<noteq> []
    \<and> err_var r = np_divide (hd residuals) (of_nat (length data))
    \<and> cond_number singular = Inr (cond_num r)
    \<and> ws = cond_warnings (cond_num r)
    \<and> freq r = freqs
    \<and> length theta = 2 * length freqs + 1
    \<and> length (complex_coef r) = length freqs
    \<and> (\<forall>j<length freqs. complex_coef r ! j = Complex (theta ! (2 * j + 1)) (theta ! (2 * j)))
    \<and> offset r = theta ! (2 * length freqs)"
proof -
  from harmonic_lsqr_Inr[OF run] obtain t0 ts Phi where tf: "tf = t0 # ts"
    and dm: "design_matrix (length data) (map (\<lambda>t. t - of_int \<lfloor>t0\<rfloor>) tf)
               (map (\<lambda>q. q * 2 * pi) freqs) = Inr Phi"
    and hr: "hals_result_of (length data) freqs Phi (solve (length data) Phi data) = Inr (r, ws)"
    by blast
  obtain theta residuals rank singular where
    sol: "solve (length data) Phi data = (theta, residuals, rank, singular)"
    by (cases "solve (length data) Phi data") auto
  from hr[unfolded sol] have "\<exists>r0 rs condnum y cc.
      residuals = r0 # rs
    \<and> cond_number singular = Inr condnum
    \<and> np_dot (length data) Phi theta = Inr y
    \<and> theta \<noteq> []
    \<and> broadcast2 (\<lambda>a b. Complex b a) (evens (butlast theta)) (odds (butlast theta)) = Inr cc
    \<and> r = \<lparr> freq = freqs, complex_coef = cc, err_var = np_divide r0 (of_nat (length data)),
             cond_num = condnum, offset = last theta, y_model = y \<rparr>
    \<and> ws = cond_warnings condnum"
    by (rule hals_result_of_Inr)
  then obtain r0 rs condnum y cc where res: "residuals = r0 # rs"
    and cn: "cond_number singular = Inr condnum"
    and dot: "np_dot (length data) Phi theta = Inr y"
    and b: "broadcast2 (\<lambda>a b. Complex b a) (evens (butlast theta)) (odds (butlast theta)) = Inr cc"
    and r: "r = \<lparr> freq = freqs, complex_coef = cc, err_var = np_divide r0 (of_nat (length data)),
             cond_num = condnum, offset = last theta, y_model = y \<rparr>"
    and ws: "ws = cond_warnings condnum"
    by blast
  from design_matrix_Inr[OF dm] have lP: "length Phi = 2 * length freqs + 1" by simp
  with np_dot_Inr_length[OF dot] have lt: "length theta = 2 * length freqs + 1" by simp
  from recombine_coefficients[OF lt b] have
    c1: "length cc = length freqs"
    and c2: "\<forall>j<length freqs. cc ! j = Complex (theta ! (2 * j + 1)) (theta ! (2 * j))"
    and c3: "last theta = theta ! (2 * length freqs)" by simp_all
  have f1: "tf \<noteq> []" using tf by simp
  have f2: "design_matrix (length data) (map (\<lambda>t. t - of_int \<lfloor>hd tf\<rfloor>) tf)
         (map (\<lambda>q. q * 2 * pi) freqs) = Inr Phi" using dm tf by simp
  have f3: "residuals \<noteq> []" using res by simp
  have f4: "err_var r = np_divide (hd residuals) (of_nat (length data))" using r res by simp
  have f5: "cond_number singular = Inr (cond_num r)" using r cn by simp
  have f6: "ws = cond_warnings (cond_num r)" using r ws by simp
  have f7: "freq r = freqs" using r by simp
  have f8: "length (complex_coef r) = length freqs" using r c1 by simp
  have f9: "\<forall>j<length freqs. complex_coef r ! j = Complex (theta ! (2 * j + 1)) (theta ! (2 * j))"
    using r c2 by simp
  have f10: "offset r = theta ! (2 * length freqs)" using r c3 by simp
  from f1 f2 sol f3 f4 f5 f6 f7 lt f8 f9 f10 show ?thesis by blast
qed

section \<open>Evaluated calls of \<^verbatim>\<open>harmonic_lsqr\<close>\<close>

lemmas harmonic_eval_defs =
  harmonic_lsqr_def design_matrix_def assign_column_def hals_result_of_def const_lstsq_def
  cond_number_def np_max_def np_min_def np_divide_def np_dot_def broadcast2_def
  cond_warnings_def Let_def

lemma cos_3pi_half: "cos (pi * 3 / 2) = 0"
  using cos_3over2_pi by (simp add: mult.commute)

lemma sin_3pi_half: "sin (pi * 3 / 2) = -1"
  using sin_3over2_pi by (simp add: mult.commute)

lemma sqrt2_min: "min (sqrt 2) 2 = sqrt 2"
  using sqrt2_less_2 by (simp add: min_def)

lemma sqrt2_max: "max (sqrt 2) 2 = 2"
  using sqrt2_less_2 by (simp add: max_def)

lemma sqrt2_ratio: "\<not> 1000000 < 2 / sqrt 2"
proof -
  have "2 / sqrt 2 = sqrt 2" by (simp add: real_div_sqrt)
  then show ?thesis using sqrt2_less_2 by simp
qed

lemma quarter_design:
  "design_matrix (length [1, 2, 3, 5 :: real])
      (map (\<lambda>t. t - of_int \<lfloor>hd [0, 1, 2, 3 :: real]\<rfloor>) [0, 1, 2, 3])
      (map (\<lambda>q. q * 2 * pi) [1 / 4])
   = Inr [[1, 0, -1, 0], [0, 1, 0, -1], [1, 1, 1, 1]]"
  by (simp add: design_matrix_def assign_column_def cos_3pi_half sin_3pi_half eval_nat_numeral)

lemma harmonic_example:
  "harmonic_lsqr (const_lstsq ([-1, -3 / 2, 11 / 4], [9 / 4], 3, [2, sqrt 2, sqrt 2]))
      [0, 1, 2, 3] [1, 2, 3, 5] [1 / 4]
   = Inr (\<lparr> freq = [1 / 4], complex_coef = [Complex (-3 / 2) (-1)], err_var = Fin (9 / 16),
             cond_num = Fin (2 / sqrt 2), offset = 11 / 4,
             y_model = [7 / 4, 5 / 4, 15 / 4, 17 / 4] \<rparr>, [])"
  by (simp add: harmonic_eval_defs upt_rec cos_3pi_half sin_3pi_half sqrt2_min sqrt2_max sqrt2_ratio)

lemma constant_design:
  "design_matrix (length [3, 3, 3, 3, 3, 3, 3, 3 :: real])
      (map (\<lambda>t. t - of_int \<lfloor>hd [0, 1, 2, 3, 4, 5, 6, 7 :: real]\<rfloor>)
        [0, 1, 2, 3, 4, 5, 6, 7]) (map (\<lambda>q. q * 2 * pi) [0])
   = Inr [[1, 1, 1, 1, 1, 1, 1, 1], [0, 0, 0, 0, 0, 0, 0, 0], [1, 1, 1, 1, 1, 1, 1, 1]]"
  by (simp add: design_matrix_def assign_column_def eval_nat_numeral)

section \<open>The error variance, the coefficients and the warning of \<^verbatim>\<open>harmonic_lsqr\<close>\<close>

lemma harmonic_lsqr_unfold:
  assumes dm: "design_matrix (length data) (map (\<lambda>t. t - of_int \<lfloor>hd tf\<rfloor>) tf)
                 (map (\<lambda>q. q * 2 * pi) freqs) = Inr Phi"
    and tf: "tf \<noteq> []"
  shows "harmonic_lsqr solve tf data freqs
           = hals_result_of (length data) freqs Phi (solve (length data) Phi data)"
proof -
  from tf obtain t0 ts where tfc: "tf = t0 # ts" by (cases tf) auto
  with dm show ?thesis by (simp add: harmonic_lsqr_def Let_def)
qed

lemma cond_number_total: "singular \<noteq> [] \<Longrightarrow> \<exists>cn. cond_number singular = Inr cn"
  by (cases singular) (simp_all add: cond_number_def np_max_def np_min_def)

lemma recombine_total:
  assumes "length theta = 2 * n + 1"
  shows "\<exists>cc. broadcast2 (\<lambda>a b. Complex b a) (evens (butlast theta)) (odds (butlast theta))
                = Inr cc"
proof -
  from assms have "length (butlast theta) = 2 * n" by simp
  from evens_odds[OF this] have "length (evens (butlast theta)) = length (odds (butlast theta))"
    by simp
  then show ?thesis by (simp add: broadcast2_def)
qed

lemma hals_result_of_returns:
  assumes res: "residuals = r0 # rs" and sing: "singular \<noteq> []"
    and lt: "length theta = length Phi" and lP: "length Phi = 2 * n + 1"
  shows "\<exists>r ws. hals_result_of N freqs Phi (theta, residuals, rank, singular) = Inr (r, ws)
           \<and> err_var r = np_divide r0 (of_nat N)"
proof -
  from cond_number_total[OF sing] obtain cn where cn: "cond_number singular = Inr cn" by blast
  from lt have "length Phi = length theta" by simp
  from np_dot_total[OF this] obtain y where y: "np_dot N Phi theta = Inr y" by blast
  from lt lP have l: "length theta = 2 * n + 1" by simp
  then have ne: "theta \<noteq> []" by auto
  from recombine_total[OF l] obtain cc where
    cc: "broadcast2 (\<lambda>a b. Complex b a) (evens (butlast theta)) (odds (butlast theta)) = Inr cc"
    by blast
  have "hals_result_of N freqs Phi (theta, residuals, rank, singular)
          = Inr (\<lparr> freq = freqs, complex_coef = cc, err_var = np_divide r0 (of_nat N),
                    cond_num = cn, offset = last theta, y_model = y \<rparr>, cond_warnings cn)"
    by (simp add: hals_result_of_def res cn y ne cc)
  then show ?thesis by simp
qed

text \<open>
  Claim C10: \<^verbatim>\<open>harmonic_lsqr\<close> computes the error variance as the first entry of the
  residuals array of the solver divided by the number of samples \<open>N\<close>: when the
  residuals are not empty (and the solver returned one coefficient per column and at
  least one singular value, as \<^verbatim>\<open>lstsq\<close> does) the call returns a result with that
  error variance, and every returned result has it. Whenever the residuals array is empty
  the call raises IndexError instead of returning a result. Under numpy's contract for
  \<^verbatim>\<open>lstsq\<close> (the residuals are empty when the matrix has no more rows than columns
  or is rank-deficient) this happens when \<open>N\<close> is at most \<open>2 nf + 1\<close>, for \<open>nf\<close>
  frequencies, or when the rank is below \<open>2 nf + 1\<close>. The design matrix is the one the
  call assembles; its assembly succeeds when the time vector has \<open>N\<close> entries.
\<close>

theorem harmonic_lsqr_error_variance:
  assumes dm: "design_matrix (length data) (map (\<lambda>t. t - of_int \<lfloor>hd tf\<rfloor>) tf)
                 (map (\<lambda>q. q * 2 * pi) freqs) = Inr Phi"
    and tf: "tf \<noteq> []"
    and sol: "solve (length data) Phi data = (theta, residuals, rank, singular)"
    and numpy: "length data \<le> length Phi \<or> rank < length Phi \<longrightarrow> residuals = []"
  shows "(residuals \<noteq> [] \<and> singular \<noteq> [] \<and> length theta = length Phi \<longrightarrow>
            (\<exists>r ws. harmonic_lsqr solve tf data freqs = Inr (r, ws)
               \<and> err_var r = np_divide (hd residuals) (of_nat (length data))))
       \<and> (\<forall>r ws. harmonic_lsqr solve tf data freqs = Inr (r, ws) \<longrightarrow>
             residuals \<noteq> [] \<and> err_var r = np_divide (hd residuals) (of_nat (length data)))
       \<and> (residuals = [] \<longrightarrow> harmonic_lsqr solve tf data freqs = Inl IndexError)
       \<and> (length data \<le> 2 * length freqs + 1 \<or> rank < 2 * length freqs + 1 \<longrightarrow>
             harmonic_lsqr solve tf data freqs = Inl IndexError)"
proof -
  have u: "harmonic_lsqr solve tf data freqs
             = hals_result_of (length data) freqs Phi (theta, residuals, rank, singular)"
    using harmonic_lsqr_unfold[OF dm tf, of solve] sol by simp
  from design_matrix_Inr[OF dm] have lP: "length Phi = 2 * length freqs + 1" by simp
  have pos: "\<exists>r ws. harmonic_lsqr solve tf data freqs = Inr (r, ws)
               \<and> err_var r = np_divide (hd residuals) (of_nat (length data))"
    if "residuals \<noteq> [] \<and> singular \<noteq> [] \<and> length theta = length Phi"
  proof -
    from that obtain r0 rs where res: "residuals = r0 # rs" by (cases residuals) auto
    from that have sing: "singular \<noteq> []" and lt: "length theta = length Phi" by simp_all
    from hals_result_of_returns[OF res sing lt lP, of "length data" freqs rank]
    show ?thesis by (simp add: u res)
  qed
  have empty: "harmonic_lsqr solve tf data freqs = Inl IndexError" if "residuals = []"
    using that by (simp add: u hals_result_of_def)
  have ret: "residuals \<noteq> [] \<and> err_var r = np_divide (hd residuals) (of_nat (length data))"
    if "harmonic_lsqr solve tf data freqs = Inr (r, ws)" for r ws
  proof -
    from that have "hals_result_of (length data) freqs Phi (theta, residuals, rank, singular)
                      = Inr (r, ws)" by (simp add: u)
    from hals_result_of_Inr[OF this] show ?thesis by auto
  qed
  have short: "harmonic_lsqr solve tf data freqs = Inl IndexError"
    if "length data \<le> 2 * length freqs + 1 \<or> rank < 2 * length freqs + 1"
    using that numpy lP empty by simp
  from pos ret empty short show ?thesis by blast
qed

theorem harmonic_lsqr_error_variance_example:
  "(case harmonic_lsqr (const_lstsq ([-1, -3 / 2, 11 / 4], [9 / 4], 3, [2, sqrt 2, sqrt 2]))
           [0, 1, 2, 3] [1, 2, 3, 5] [1 / 4] of
      Inl e \<Rightarrow> False
    | Inr (r, ws) \<Rightarrow> err_var r = Fin (9 / 16))
   \<and> harmonic_lsqr (const_lstsq ([3 / 2, 0, 3 / 2], [], 1, [4, 0, 0]))
        [0, 1, 2, 3, 4, 5, 6, 7] [3, 3, 3, 3, 3, 3, 3, 3] [0] = Inl IndexError"
proof -
  let ?s1 = "const_lstsq ([-1, -3 / 2, 11 / 4], [9 / 4], 3, [2, sqrt 2, sqrt 2])"
  let ?s2 = "const_lstsq ([3 / 2, 0, 3 / 2], [], 1, [4, 0, 0])"
  note t1 = harmonic_lsqr_error_variance
    [where solve = ?s1 and tf = "[0, 1, 2, 3]" and data = "[1, 2, 3, 5]" and freqs = "[1 / 4]"
       and theta = "[-1, -3 / 2, 11 / 4]" and residuals = "[9 / 4]" and rank = 3
       and singular = "[2, sqrt 2, sqrt 2]"
       and Phi = "[[1, 0, -1, 0], [0, 1, 0, -1], [1, 1, 1, 1]]"]
  note t2 = harmonic_lsqr_error_variance
    [where solve = ?s2 and tf = "[0, 1, 2, 3, 4, 5, 6, 7]" and data = "[3, 3, 3, 3, 3, 3, 3, 3]"
       and freqs = "[0]"
       and theta = "[3 / 2, 0, 3 / 2]" and residuals = "[]" and rank = 1
       and singular = "[4, 0, 0]"
       and Phi = "[[1, 1, 1, 1, 1, 1, 1, 1], [0, 0, 0, 0, 0, 0, 0, 0], [1, 1, 1, 1, 1, 1, 1, 1]]"]
  have p1: "[0, 1, 2, 3 :: real] \<noteq> []" by simp
  have p2: "?s1 (length [1, 2, 3, 5 :: real]) [[1, 0, -1, 0], [0, 1, 0, -1], [1, 1, 1, 1]]
              [1, 2, 3, 5] = ([-1, -3 / 2, 11 / 4], [9 / 4], 3, [2, sqrt 2, sqrt 2])"
    by (simp add: const_lstsq_def)
  have p3: "length [1, 2, 3, 5 :: real] \<le> length [[1, 0, -1, 0], [0, 1, 0, -1], [1, 1, 1, 1 :: real]]
            \<or> (3 :: nat) < length [[1, 0, -1, 0], [0, 1, 0, -1], [1, 1, 1, 1 :: real]]
            \<longrightarrow> [9 / 4 :: real] = []"
    by simp
  have q1: "[0, 1, 2, 3, 4, 5, 6, 7 :: real] \<noteq> []" by simp
  have q2: "?s2 (length [3, 3, 3, 3, 3, 3, 3, 3 :: real])
              [[1, 1, 1, 1, 1, 1, 1, 1], [0, 0, 0, 0, 0, 0, 0, 0], [1, 1, 1, 1, 1, 1, 1, 1]]
              [3, 3, 3, 3, 3, 3, 3, 3] = ([3 / 2, 0, 3 / 2], [], 1, [4, 0, 0])"
    by (simp add: const_lstsq_def)
  have q3: "length [3, 3, 3, 3, 3, 3, 3, 3 :: real]
              \<le> length [[1, 1, 1, 1, 1, 1, 1, 1], [0, 0, 0, 0, 0, 0, 0, 0],
                          [1, 1, 1, 1, 1, 1, 1, 1 :: real]]
            \<or> (1 :: nat) < length [[1, 1, 1, 1, 1, 1, 1, 1], [0, 0, 0, 0, 0, 0, 0, 0],
                                    [1, 1, 1, 1, 1, 1, 1, 1 :: real]]
            \<longrightarrow> ([] :: real list) = []"
    by simp
  note r1 = t1 [OF quarter_design p1 p2 p3]
  note r2 = t2 [OF constant_design q1 q2 q3]
  from r1 have "[9 / 4 :: real] \<noteq> [] \<and> [2, sqrt 2, sqrt 2] \<noteq> []
      \<and> length [-1, -3 / 2, 11 / 4 :: real]
          = length [[1, 0, -1, 0], [0, 1, 0, -1], [1, 1, 1, 1 :: real]] \<longrightarrow>
      (\<exists>r ws. harmonic_lsqr ?s1 [0, 1, 2, 3] [1, 2, 3, 5] [1 / 4] = Inr (r, ws)
         \<and> err_var r = np_divide (hd [9 / 4]) (of_nat (length [1, 2, 3, 5 :: real])))"
    by (rule conjunct1)
  then obtain r ws where run: "harmonic_lsqr ?s1 [0, 1, 2, 3] [1, 2, 3, 5] [1 / 4] = Inr (r, ws)"
    and ev: "err_var r = np_divide (hd [9 / 4]) (of_nat (length [1, 2, 3, 5 :: real]))"
    by auto
  from ev have a: "err_var r = Fin (9 / 16)" by (simp add: np_divide_def)
  from r2 have b: "harmonic_lsqr ?s2 [0, 1, 2, 3, 4, 5, 6, 7] [3, 3, 3, 3, 3, 3, 3, 3] [0]
      = Inl IndexError"
    by simp
  show ?thesis unfolding run b using a by simp
qed

lemma harmonic_lsqr_coefficients:
  assumes run: "harmonic_lsqr solve tf data freqs = Inr (r, ws)"
  shows "\<exists>Phi theta residuals rank singular.
      design_matrix (length data) (map (\<lambda>t. t - of_int \<lfloor>hd tf\<rfloor>) tf)
         (map (\<lambda>q. q * 2 * pi) freqs) = Inr Phi
    \<and> solve (length data) Phi data = (theta, residuals, rank, singular)
    \<and> length Phi = 2 * length freqs + 1
    \<and> length theta = 2 * length freqs + 1
    \<and> length (complex_coef r) = length freqs
    \<and> (\<forall>j<length freqs.
          assign_column (length data)
            (map (\<lambda>t. cos (map (\<lambda>q. q * 2 * pi) freqs ! j * t))
               (map (\<lambda>t. t - of_int \<lfloor>hd tf\<rfloor>) tf)) = Inr (Phi ! (2 * j))
        \<and> assign_column (length data)
            (map (\<lambda>t. sin (map (\<lambda>q. q * 2 * pi) freqs ! j * t))
               (map (\<lambda>t. t - of_int \<lfloor>hd tf\<rfloor>) tf)) = Inr (Phi ! (2 * j + 1))
        \<and> Re (complex_coef r ! j) = theta ! (2 * j + 1)
        \<and> Im (complex_coef r ! j) = theta ! (2 * j))
    \<and> Phi ! (2 * length freqs) = replicate (length data) 1
    \<and> offset r = theta ! (2 * length freqs)
    \<and> offset r = last theta"
proof -
  from harmonic_lsqr_structure[OF run] obtain Phi theta residuals rank singular where
    dm: "design_matrix (length data) (map (\<lambda>t. t - of_int \<lfloor>hd tf\<rfloor>) tf)
         (map (\<lambda>q. q * 2 * pi) freqs) = Inr Phi"
    and sol: "solve (length data) Phi data = (theta, residuals, rank, singular)"
    and lt: "length theta = 2 * length freqs + 1"
    and lc: "length (complex_coef r) = length freqs"
    and cc: "\<forall>j<length freqs. complex_coef r ! j = Complex (theta ! (2 * j + 1)) (theta ! (2 * j))"
    and off: "offset r = theta ! (2 * length freqs)"
    by blast
  from design_matrix_Inr[OF dm] have lP: "length Phi = 2 * length freqs + 1"
    and cols: "\<forall>j<length freqs.
          assign_column (length data)
            (map (\<lambda>t. cos (map (\<lambda>q. q * 2 * pi) freqs ! j * t))
               (map (\<lambda>t. t - of_int \<lfloor>hd tf\<rfloor>) tf)) = Inr (Phi ! (2 * j))
        \<and> assign_column (length data)
            (map (\<lambda>t. sin (map (\<lambda>q. q * 2 * pi) freqs ! j * t))
               (map (\<lambda>t. t - of_int \<lfloor>hd tf\<rfloor>) tf)) = Inr (Phi ! (2 * j + 1))"
    and dc: "Phi ! (2 * length freqs) = replicate (length data) 1"
    by simp_all
  from lt have "theta \<noteq> []" by auto
  then have "last theta = theta ! (length theta - 1)" by (rule last_conv_nth)
  with lt off have off2: "offset r = last theta" by simp
  have both: "\<forall>j<length freqs.
          assign_column (length data)
            (map (\<lambda>t. cos (map (\<lambda>q. q * 2 * pi) freqs ! j * t))
               (map (\<lambda>t. t - of_int \<lfloor>hd tf\<rfloor>) tf)) = Inr (Phi ! (2 * j))
        \<and> assign_column (length data)
            (map (\<lambda>t. sin (map (\<lambda>q. q * 2 * pi) freqs ! j * t))
               (map (\<lambda>t. t - of_int \<lfloor>hd tf\<rfloor>) tf)) = Inr (Phi ! (2 * j + 1))
        \<and> Re (complex_coef r ! j) = theta ! (2 * j + 1)
        \<and> Im (complex_coef r ! j) = theta ! (2 * j)"
    using cols cc by simp
  from dm sol lP lt lc both dc off off2 show ?thesis by blast
qed

text \<open>
  Claim C7: for every target frequency \<open>j\<close>, \<^verbatim>\<open>harmonic_lsqr\<close> returns one complex
  coefficient whose real part is the fitted coefficient of the sine column of that
  frequency (column \<open>2 j + 1\<close> of the design matrix) and whose imaginary part is the
  fitted coefficient of its cosine column (column \<open>2 j\<close>); the last fitted parameter,
  the coefficient of the constant column, is returned separately as the offset.
\<close>

theorem harmonic_lsqr_complex_coefficients:
  assumes run: "harmonic_lsqr solve tf data freqs = Inr (r, ws)"
  shows "\<exists>Phi theta residuals rank singular.
      design_matrix (length data) (map (\<lambda>t. t - of_int \<lfloor>hd tf\<rfloor>) tf)
         (map (\<lambda>q. q * 2 * pi) freqs) = Inr Phi
    \<and> solve (length data) Phi data = (theta, residuals, rank, singular)
    \<and> length Phi = 2 * length freqs + 1
    \<and> length theta = 2 * length freqs + 1
    \<and> length (complex_coef r) = length freqs
    \<and> (\<forall>j<length freqs.
          assign_column (length data)
            (map (\<lambda>t. cos (map (\<lambda>q. q * 2 * pi) freqs ! j * t))
               (map (\<lambda>t. t - of_int \<lfloor>hd tf\<rfloor>) tf)) = Inr (Phi ! (2 * j))
        \<and> assign_column (length data)
            (map (\<lambda>t. sin (map (\<lambda>q. q * 2 * pi) freqs ! j * t))
               (map (\<lambda>t. t - of_int \<lfloor>hd tf\<rfloor>) tf)) = Inr (Phi ! (2 * j + 1))
        \<and> Re (complex_coef r ! j) = theta ! (2 * j + 1)
        \<and> Im (complex_coef r ! j) = theta ! (2 * j))
    \<and> Phi ! (2 * length freqs) = replicate (length data) 1
    \<and> offset r = theta ! (2 * length freqs)
    \<and> offset r = last theta"
  using run by (rule harmonic_lsqr_coefficients)

theorem harmonic_lsqr_complex_coefficients_example:
  "Re (Complex (-3 / 2) (-1)) = [-1, -3 / 2, 11 / 4] ! 1
   \<and> Im (Complex (-3 / 2) (-1)) = [-1, -3 / 2, 11 / 4 :: real] ! 0
   \<and> (11 / 4 :: real) = last [-1, -3 / 2, 11 / 4]"
proof -
  let ?R = "\<lparr> freq = [1 / 4], complex_coef = [Complex (-3 / 2) (-1)], err_var = Fin (9 / 16),
             cond_num = Fin (2 / sqrt 2), offset = 11 / 4,
             y_model = [7 / 4, 5 / 4, 15 / 4, 17 / 4] \<rparr>"
  from harmonic_lsqr_complex_coefficients [OF harmonic_example]
  obtain Phi theta residuals rank singular where
    sol: "const_lstsq ([-1, -3 / 2, 11 / 4], [9 / 4], 3, [2, sqrt 2, sqrt 2])
            (length [1, 2, 3, 5 :: real]) Phi [1, 2, 3, 5] = (theta, residuals, rank, singular)"
    and c: "\<forall>j<length [1 / 4 :: real].
              Re (complex_coef ?R ! j) = theta ! (2 * j + 1)
            \<and> Im (complex_coef ?R ! j) = theta ! (2 * j)"
    and off: "offset ?R = last theta"
    by blast
  from sol have theta: "theta = [-1, -3 / 2, 11 / 4]" by (simp add: const_lstsq_def)
  from c[rule_format, of 0] off show ?thesis unfolding theta by simp
qed

text \<open>
  Claim C6 says that in \<^verbatim>\<open>harmonic_lsqr\<close> and in both modes of
  \<^verbatim>\<open>regress_deconv\<close> the ill-conditioning warning is issued exactly when the ratio of
  the largest to the smallest singular value of the design matrix exceeds \<open>10\<^sup>6\<close>, and
  that the fit is still returned then. In \<^verbatim>\<open>harmonic_lsqr\<close> the error variance is read
  from the residuals (line 414) before the condition number is examined (lines 415--420).
  For a rank-deficient design matrix the smallest singular value is zero, the ratio is
  infinite, and the residuals are empty: the call raises IndexError, issues no warning and
  returns no fit. Eight samples of a constant series fitted at frequency zero are such a
  case: the cosine column equals the constant column and the sine column is zero, so the
  singular values are \<open>4, 0, 0\<close>.
\<close>

theorem rank_deficient_fit_raises_before_warning:
  "harmonic_lsqr (const_lstsq ([3 / 2, 0, 3 / 2], [], 1, [4, 0, 0]))
        [0, 1, 2, 3, 4, 5, 6, 7] [3, 3, 3, 3, 3, 3, 3, 3] [0] = Inl IndexError
   \<and> cond_number [4, 0, 0] = Inr PosInf
   \<and> cond_warnings PosInf = [IllConditioned PosInf]"
  by (simp add: harmonic_eval_defs eval_nat_numeral)

section \<open>The tidal coefficients of mode \<^verbatim>\<open>hals\<close>\<close>

lemma hals_regressors_True:
  "hals_regressors True n v t fqs = Inr X \<Longrightarrow> X = v @ cos_columns n t fqs @ sin_columns n t fqs"
  by (auto simp: hals_regressors_def Let_def split: if_splits)

lemma hals_erf_Inr_eq:
  "hals_erf c nm fqs = Inr e \<Longrightarrow>
     e = ErfHals fqs (map2 Complex (map ((!) c) [nm + 1..<length fqs + nm + 1])
                        (map ((!) c) (map (\<lambda>i. length fqs + i) [nm + 1..<length fqs + nm + 1])))
   \<and> (fqs \<noteq> [] \<longrightarrow> 2 * length fqs + nm + 1 \<le> length c)"
proof -
  assume h: "hals_erf c nm fqs = Inr e"
  then obtain ck cNPk where
    ck: "fancy_index c [nm + 1..<length fqs + nm + 1] = Inr ck"
    and cN: "fancy_index c (map (\<lambda>i. length fqs + i) [nm + 1..<length fqs + nm + 1]) = Inr cNPk"
    and e: "e = ErfHals fqs (map2 Complex ck cNPk)"
    by (auto simp: hals_erf_def bindE_Inr_iff Let_def)
  have "2 * length fqs + nm + 1 \<le> length c" if ne: "fqs \<noteq> []"
  proof -
    from ne have m: "length fqs + nm \<in> set [nm + 1..<length fqs + nm + 1]" by (cases fqs) auto
    from cN have "list_all (\<lambda>k. k < length c) (map (\<lambda>i. length fqs + i) [nm + 1..<length fqs + nm + 1])"
      by (simp add: fancy_index_def split: if_splits)
    then have "\<forall>i\<in>set [nm + 1..<length fqs + nm + 1]. length fqs + i < length c"
      by (simp add: list_all_iff)
    with m have "length fqs + (length fqs + nm) < length c" by blast
    then show ?thesis by simp
  qed
  with e fancy_index_Inr[OF ck] fancy_index_Inr[OF cN] show ?thesis by simp
qed

lemma deconv_hals_tides:
  assumes run: "regress_deconv cf sv etfqs tf GW BP ET lag_h (Some ''hals'') fqs = Inr (WLc, p, ws)"
    and fq: "fq = (case fqs of None \<Rightarrow> etfqs | Some f \<Rightarrow> f)"
  shows "\<exists>dt c covar condnum.
      sample_interval tf = Inr dt \<and> dt \<noteq> 0
    \<and> fit_and_correct cf sv (length BP - 1)
         (lag_columns (length BP - 1) (nat (lag_steps lag_h dt + 1)) (map uminus (derivative BP dt))
            @ cos_columns (length BP - 1) tf fq @ sin_columns (length BP - 1) tf fq)
         tf (derivative GW dt) dt GW = Inr (c, covar, condnum, WLc)
    \<and> brf_bundle c covar (np_linspace0 lag_h (nat (lag_steps lag_h dt + 1)))
        (nat (lag_steps lag_h dt + 1)) = Inr (brf p)
    \<and> hals_erf c (nat (lag_steps lag_h dt + 1)) fq = Inr (the (erf p))
    \<and> erf p \<noteq> None"
proof -
  from regress_deconv_Inr[OF run] have
    "deconv_hals cf sv tf GW BP True lag_h fq = Inr (WLc, p, ws)"
    by (simp add: fq)
  from deconv_hals_Inr[OF this] obtain dt X c covar condnum e where
    dt: "sample_interval tf = Inr dt" "dt \<noteq> 0"
    and X: "hals_regressors True (length (derivative BP dt))
         (lag_columns (length (derivative BP dt)) (nat (lag_steps lag_h dt + 1))
            (map uminus (derivative BP dt))) tf fq = Inr X"
    and fc: "fit_and_correct cf sv (length (derivative BP dt)) X tf (derivative GW dt) dt GW
        = Inr (c, covar, condnum, WLc)"
    and bb: "brf_bundle c covar (np_linspace0 lag_h (nat (lag_steps lag_h dt + 1)))
        (nat (lag_steps lag_h dt + 1)) = Inr (brf p)"
    and e: "hals_erf c (nat (lag_steps lag_h dt + 1)) fq = Inr e" "erf p = Some e"
    by auto
  have n: "length (derivative BP dt) = length BP - 1" by (simp add: derivative_def)
  from hals_regressors_True[OF X] fc dt bb e show ?thesis unfolding n by auto
qed

lemma hals_columns_nth:
  assumes j: "j < length fq" and v: "length v = nm"
  shows "(replicate n 1 # (v @ cos_columns n tf fq @ sin_columns n tf fq)) ! (nm + 1 + j)
           = map (\<lambda>t. cos (2 * pi * fq ! j * t)) (take n tf)"
    and "(replicate n 1 # (v @ cos_columns n tf fq @ sin_columns n tf fq)) ! (nm + 1 + length fq + j)
           = map (\<lambda>t. sin (2 * pi * fq ! j * t)) (take n tf)"
proof -
  have lc: "length (cos_columns n tf fq) = length fq" by (simp add: cos_columns_def)
  have "(replicate n 1 # (v @ cos_columns n tf fq @ sin_columns n tf fq)) ! (nm + 1 + j)
          = (v @ cos_columns n tf fq @ sin_columns n tf fq) ! (nm + j)" by simp
  also have "\<dots> = (cos_columns n tf fq @ sin_columns n tf fq) ! j"
    using v by (simp add: nth_append)
  also have "\<dots> = cos_columns n tf fq ! j" using j lc by (simp add: nth_append)
  also have "\<dots> = map (\<lambda>t. cos (2 * pi * fq ! j * t)) (take n tf)"
    using j by (simp add: cos_columns_def)
  finally show "(replicate n 1 # (v @ cos_columns n tf fq @ sin_columns n tf fq)) ! (nm + 1 + j)
           = map (\<lambda>t. cos (2 * pi * fq ! j * t)) (take n tf)" .
  have "(replicate n 1 # (v @ cos_columns n tf fq @ sin_columns n tf fq)) ! (nm + 1 + length fq + j)
          = (v @ cos_columns n tf fq @ sin_columns n tf fq) ! (nm + (length fq + j))"
    by (simp add: add.assoc)
  also have "\<dots> = (cos_columns n tf fq @ sin_columns n tf fq) ! (length fq + j)"
    using v by (simp add: nth_append)
  also have "\<dots> = sin_columns n tf fq ! j" using lc by (simp add: nth_append)
  also have "\<dots> = map (\<lambda>t. sin (2 * pi * fq ! j * t)) (take n tf)"
    using j by (simp add: sin_columns_def)
  finally show "(replicate n 1 # (v @ cos_columns n tf fq @ sin_columns n tf fq))
                   ! (nm + 1 + length fq + j)
           = map (\<lambda>t. sin (2 * pi * fq ! j * t)) (take n tf)" .
qed

lemma hals_erf_nth:
  assumes "hals_erf c nm fq = Inr e"
  shows "\<exists>cc. e = ErfHals fq cc \<and> length cc = length fq
     \<and> (\<forall>j<length fq. cc ! j = Complex (c ! (nm + 1 + j)) (c ! (nm + 1 + length fq + j)))"
proof -
  define cc where "cc = map2 Complex (map ((!) c) [nm + 1..<length fq + nm + 1])
                        (map ((!) c) (map (\<lambda>i. length fq + i) [nm + 1..<length fq + nm + 1]))"
  from hals_erf_Inr_eq[OF assms] have e: "e = ErfHals fq cc" by (simp add: cc_def)
  have l: "length cc = length fq" by (simp add: cc_def del: upt_Suc)
  have n: "cc ! j = Complex (c ! (nm + 1 + j)) (c ! (nm + 1 + length fq + j))"
    if "j < length fq" for j
  proof -
    from that have "[nm + 1..<length fq + nm + 1] ! j = nm + 1 + j" by (simp del: upt_Suc)
    with that show ?thesis by (simp add: cc_def add.commute add.left_commute del: upt_Suc)
  qed
  from e l n show ?thesis by blast
qed

lemma hals_erf_coefficients:
  assumes run: "regress_deconv cf sv etfqs tf GW BP ET lag_h (Some ''hals'') fqs = Inr (WLc, p, ws)"
    and fq: "fq = (case fqs of None \<Rightarrow> etfqs | Some f \<Rightarrow> f)"
  shows "\<exists>n Z y p0 c covar nm cc.
      cf n Z tf y p0 = Inr (c, covar)
    \<and> erf p = Some (ErfHals fq cc)
    \<and> length cc = length fq
    \<and> (\<forall>j<length fq.
          Z ! (nm + 1 + j) = map (\<lambda>t. cos (2 * pi * fq ! j * t)) (take n tf)
        \<and> Z ! (nm + 1 + length fq + j) = map (\<lambda>t. sin (2 * pi * fq ! j * t)) (take n tf)
        \<and> Re (cc ! j) = c ! (nm + 1 + j)
        \<and> Im (cc ! j) = c ! (nm + 1 + length fq + j))"
proof -
  from deconv_hals_tides[OF run fq] obtain dt c covar condnum where
    fc: "fit_and_correct cf sv (length BP - 1)
         (lag_columns (length BP - 1) (nat (lag_steps lag_h dt + 1)) (map uminus (derivative BP dt))
            @ cos_columns (length BP - 1) tf fq @ sin_columns (length BP - 1) tf fq)
         tf (derivative GW dt) dt GW = Inr (c, covar, condnum, WLc)"
    and e: "hals_erf c (nat (lag_steps lag_h dt + 1)) fq = Inr (the (erf p))"
    and ne: "erf p \<noteq> None"
    by blast
  define n where "n = length BP - 1"
  define nm where "nm = nat (lag_steps lag_h dt + 1)"
  define v where "v = lag_columns n nm (map uminus (derivative BP dt))"
  define Z where "Z = replicate n 1 # (v @ cos_columns n tf fq @ sin_columns n tf fq)"
  have lv: "length v = nm" by (simp add: v_def)
  from fit_and_correct_Inr[OF fc] have
    cf: "cf n Z tf (derivative GW dt)
           (replicate (Suc (length (v @ cos_columns n tf fq @ sin_columns n tf fq))) (1 / 2))
         = Inr (c, covar)"
    unfolding n_def nm_def v_def Z_def by blast
  from hals_erf_nth[OF e] obtain cc where ecc: "the (erf p) = ErfHals fq cc"
    and lcc: "length cc = length fq"
    and ncc: "\<forall>j<length fq. cc ! j = Complex (c ! (nm + 1 + j)) (c ! (nm + 1 + length fq + j))"
    unfolding nm_def by blast
  from ne ecc have ep: "erf p = Some (ErfHals fq cc)" by auto
  have cols: "\<forall>j<length fq.
          Z ! (nm + 1 + j) = map (\<lambda>t. cos (2 * pi * fq ! j * t)) (take n tf)
        \<and> Z ! (nm + 1 + length fq + j) = map (\<lambda>t. sin (2 * pi * fq ! j * t)) (take n tf)
        \<and> Re (cc ! j) = c ! (nm + 1 + j)
        \<and> Im (cc ! j) = c ! (nm + 1 + length fq + j)"
  proof (intro allI impI)
    fix j assume j: "j < length fq"
    from hals_columns_nth[OF j lv, of n tf] ncc j
    show "Z ! (nm + 1 + j) = map (\<lambda>t. cos (2 * pi * fq ! j * t)) (take n tf)
        \<and> Z ! (nm + 1 + length fq + j) = map (\<lambda>t. sin (2 * pi * fq ! j * t)) (take n tf)
        \<and> Re (cc ! j) = c ! (nm + 1 + j)
        \<and> Im (cc ! j) = c ! (nm + 1 + length fq + j)"
      unfolding Z_def by simp
  qed
  from cf ep lcc cols show ?thesis by blast
qed

lemma cos_3pi_half2: "cos (3 * pi / 2) = 0"
  using cos_3over2_pi by simp

lemma sin_3pi_half2: "sin (3 * pi / 2) = -1"
  using sin_3over2_pi by simp

lemma deconv_hals_example:
  "regress_deconv
      (const_fit [0, 0, 1, 0] [[1, 0, 0, 0], [0, 1, 0, 0], [0, 0, 1, 0], [0, 0, 0, 1]])
      (const_svd [2, 2, sqrt 2, sqrt 2]) []
      [0, 1, 2, 3, 4] [0, 1, 1, 0, 0] [0, 1, 0, 1, 0] None
      0 (Some ''hals'') (Some [1 / 4])
   = Inr ([2 / 5, 2 / 5, 2 / 5, 2 / 5, 2 / 5],
          \<lparr> brf = \<lparr> lag = [0], irf = [0], irf_stdev = [Some 1],
                    crf = [0], crf_stdev = [Some 1] \<rparr>,
             erf = Some (ErfHals [1 / 4] [Complex 1 0]) \<rparr>, [])"
  by (simp add: eval_defs upt_rec cos_3pi_half2 sin_3pi_half2 sqrt2_min sqrt2_max sqrt2_ratio)


text \<open>
  Claim C9: in mode \<^verbatim>\<open>hals\<close> of \<^verbatim>\<open>regress_deconv\<close> the tidal coefficient of
  frequency \<open>j\<close> has as real part the fitted coefficient of the cosine column of that
  frequency (column \<open>nm + 1 + j\<close> of the regression matrix) and as imaginary part the
  fitted coefficient of its sine column (column \<open>nm + 1 + NP + j\<close>), whereas
  \<^verbatim>\<open>harmonic_lsqr\<close> puts the sine coefficient into the real part and the cosine
  coefficient into the imaginary part.
\<close>

theorem hals_tidal_coefficients:
  assumes run: "regress_deconv cf sv etfqs tf GW BP ET lag_h (Some ''hals'') fqs = Inr (WLc, p, ws)"
    and fq: "fq = (case fqs of None \<Rightarrow> etfqs | Some f \<Rightarrow> f)"
    and hrun: "harmonic_lsqr solve tf' data freqs = Inr (r, ws')"
  shows "(\<exists>n Z y p0 c covar nm cc.
      cf n Z tf y p0 = Inr (c, covar)
    \<and> erf p = Some (ErfHals fq cc)
    \<and> length cc = length fq
    \<and> (\<forall>j<length fq.
          Z ! (nm + 1 + j) = map (\<lambda>t. cos (2 * pi * fq ! j * t)) (take n tf)
        \<and> Z ! (nm + 1 + length fq + j) = map (\<lambda>t. sin (2 * pi * fq ! j * t)) (take n tf)
        \<and> Re (cc ! j) = c ! (nm + 1 + j)
        \<and> Im (cc ! j) = c ! (nm + 1 + length fq + j)))
   \<and> (\<exists>Phi theta residuals rank singular.
      design_matrix (length data) (map (\<lambda>t. t - of_int \<lfloor>hd tf'\<rfloor>) tf')
         (map (\<lambda>q. q * 2 * pi) freqs) = Inr Phi
    \<and> solve (length data) Phi data = (theta, residuals, rank, singular)
    \<and> length (complex_coef r) = length freqs
    \<and> (\<forall>j<length freqs.
          assign_column (length data)
            (map (\<lambda>t. cos (map (\<lambda>q. q * 2 * pi) freqs ! j * t))
               (map (\<lambda>t. t - of_int \<lfloor>hd tf'\<rfloor>) tf')) = Inr (Phi ! (2 * j))
        \<and> assign_column (length data)
            (map (\<lambda>t. sin (map (\<lambda>q. q * 2 * pi) freqs ! j * t))
               (map (\<lambda>t. t - of_int \<lfloor>hd tf'\<rfloor>) tf')) = Inr (Phi ! (2 * j + 1))
        \<and> Re (complex_coef r ! j) = theta ! (2 * j + 1)
        \<and> Im (complex_coef r ! j) = theta ! (2 * j)))"
proof
  show "\<exists>n Z y p0 c covar nm cc.
      cf n Z tf y p0 = Inr (c, covar)
    \<and> erf p = Some (ErfHals fq cc)
    \<and> length cc = length fq
    \<and> (\<forall>j<length fq.
          Z ! (nm + 1 + j) = map (\<lambda>t. cos (2 * pi * fq ! j * t)) (take n tf)
        \<and> Z ! (nm + 1 + length fq + j) = map (\<lambda>t. sin (2 * pi * fq ! j * t)) (take n tf)
        \<and> Re (cc ! j) = c ! (nm + 1 + j)
        \<and> Im (cc ! j) = c ! (nm + 1 + length fq + j))"
    using run fq by (rule hals_erf_coefficients)
next
  from harmonic_lsqr_coefficients[OF hrun]
  show "\<exists>Phi theta residuals rank singular.
      design_matrix (length data) (map (\<lambda>t. t - of_int \<lfloor>hd tf'\<rfloor>) tf')
         (map (\<lambda>q. q * 2 * pi) freqs) = Inr Phi
    \<and> solve (length data) Phi data = (theta, residuals, rank, singular)
    \<and> length (complex_coef r) = length freqs
    \<and> (\<forall>j<length freqs.
          assign_column (length data)
            (map (\<lambda>t. cos (map (\<lambda>q. q * 2 * pi) freqs ! j * t))
               (map (\<lambda>t. t - of_int \<lfloor>hd tf'\<rfloor>) tf')) = Inr (Phi ! (2 * j))
        \<and> assign_column (length data)
            (map (\<lambda>t. sin (map (\<lambda>q. q * 2 * pi) freqs ! j * t))
               (map (\<lambda>t. t - of_int \<lfloor>hd tf'\<rfloor>) tf')) = Inr (Phi ! (2 * j + 1))
        \<and> Re (complex_coef r ! j) = theta ! (2 * j + 1)
        \<and> Im (complex_coef r ! j) = theta ! (2 * j))"
    by blast
qed

theorem hals_tidal_coefficients_example:
  "Re (Complex 1 0) = [0, 0, 1, 0 :: real] ! 2 \<and> Im (Complex 1 0) = [0, 0, 1, 0 :: real] ! 3
   \<and> Re (Complex (-3 / 2) (-1)) = [-1, -3 / 2, 11 / 4 :: real] ! 1
   \<and> Im (Complex (-3 / 2) (-1)) = [-1, -3 / 2, 11 / 4 :: real] ! 0"
proof -
  have fq: "[1 / 4 :: real] = (case Some [1 / 4] of None \<Rightarrow> [] | Some f \<Rightarrow> f)" by simp
  note th = hals_tidal_coefficients [OF deconv_hals_example fq harmonic_example]
  from th obtain n Z y p0 c covar nm cc where
    cf: "const_fit [0, 0, 1, 0] [[1, 0, 0, 0], [0, 1, 0, 0], [0, 0, 1, 0], [0, 0, 0, 1]]
           n Z [0, 1, 2, 3, 4] y p0 = Inr (c, covar)"
    and e: "erf \<lparr> brf = \<lparr> lag = [0], irf = [0], irf_stdev = [Some 1],
                    crf = [0], crf_stdev = [Some 1] \<rparr>,
             erf = Some (ErfHals [1 / 4] [Complex 1 0]) \<rparr> = Some (ErfHals [1 / 4] cc)"
    and z: "\<forall>j<length [1 / 4 :: real].
          Z ! (nm + 1 + j) = map (\<lambda>t. cos (2 * pi * [1 / 4] ! j * t)) (take n [0, 1, 2, 3, 4])
        \<and> Z ! (nm + 1 + length [1 / 4 :: real] + j)
            = map (\<lambda>t. sin (2 * pi * [1 / 4] ! j * t)) (take n [0, 1, 2, 3, 4])
        \<and> Re (cc ! j) = c ! (nm + 1 + j)
        \<and> Im (cc ! j) = c ! (nm + 1 + length [1 / 4 :: real] + j)"
    by blast
  from th obtain Phi theta residuals rank singular where
    sol: "const_lstsq ([-1, -3 / 2, 11 / 4], [9 / 4], 3, [2, sqrt 2, sqrt 2])
            (length [1, 2, 3, 5 :: real]) Phi [1, 2, 3, 5] = (theta, residuals, rank, singular)"
    and h: "\<forall>j<length [1 / 4 :: real].
          Re (complex_coef \<lparr> freq = [1 / 4], complex_coef = [Complex (-3 / 2) (-1)],
             err_var = Fin (9 / 16), cond_num = Fin (2 / sqrt 2), offset = 11 / 4,
             y_model = [7 / 4, 5 / 4, 15 / 4, 17 / 4] \<rparr> ! j) = theta ! (2 * j + 1)
        \<and> Im (complex_coef \<lparr> freq = [1 / 4], complex_coef = [Complex (-3 / 2) (-1)],
             err_var = Fin (9 / 16), cond_num = Fin (2 / sqrt 2), offset = 11 / 4,
             y_model = [7 / 4, 5 / 4, 15 / 4, 17 / 4] \<rparr> ! j) = theta ! (2 * j)"
    by blast
  from sol have theta: "theta = [-1, -3 / 2, 11 / 4]" by (simp add: const_lstsq_def)
  from e have cc: "cc = [Complex 1 0]" by simp
  from h[rule_format, of 0] have a: "Re (Complex (-3 / 2) (-1)) = [-1, -3 / 2, 11 / 4 :: real] ! 1
      \<and> Im (Complex (-3 / 2) (-1)) = [-1, -3 / 2, 11 / 4 :: real] ! 0"
    unfolding theta by simp
  show ?thesis using a by simp
qed

section \<open>The correction subtracted in mode \<^verbatim>\<open>hals\<close>\<close>

lemma np_dot_append:
  assumes "np_dot n A a = Inr p" "np_dot n B b = Inr q"
  shows "np_dot n (A @ B) (a @ b) = Inr (map2 (+) p q)"
  using assms
  by (auto simp: np_dot_def split: if_splits intro!: nth_equalityI)

lemma fancy_index_range:
  assumes "fancy_index c [1..<nm + 1] = Inr rf" "nm \<le> length (drop 1 c)"
  shows "rf = take nm (drop 1 c)"
proof (rule nth_equalityI)
  from fancy_index_Inr[OF assms(1)] have rf: "rf = map ((!) c) [1..<nm + 1]" .
  show "length rf = length (take nm (drop 1 c))" using assms(2) by (simp add: rf del: upt_Suc)
  fix i assume "i < length rf"
  then have i: "i < nm" by (simp add: rf del: upt_Suc)
  then have "rf ! i = c ! (1 + i)" by (simp add: rf del: upt_Suc)
  also have "\<dots> = take nm (drop 1 c) ! i" using i assms(2) by simp
  finally show "rf ! i = take nm (drop 1 c) ! i" .
qed

lemma tidal_coefficients_split:
  assumes l: "length cc = NP" and d: "length d = nm + 2 * NP"
    and n: "\<forall>j<NP. cc ! j = Complex (d ! (nm + j)) (d ! (nm + NP + j))"
  shows "map Re cc @ map Im cc = drop nm d"
proof (rule nth_equalityI)
  show "length (map Re cc @ map Im cc) = length (drop nm d)" using l d by simp
  fix i assume "i < length (map Re cc @ map Im cc)"
  then have i: "i < 2 * NP" using l by simp
  show "(map Re cc @ map Im cc) ! i = drop nm d ! i"
  proof (cases "i < NP")
    case True
    with l n d show ?thesis by (simp add: nth_append)
  next
    case False
    with i have j: "i - NP < NP" by simp
    from False have "(map Re cc @ map Im cc) ! i = Im (cc ! (i - NP))"
      using l j by (simp add: nth_append)
    also from n j have "\<dots> = d ! (nm + NP + (i - NP))" by simp
    also from False have "nm + NP + (i - NP) = nm + i" by simp
    finally show ?thesis using d i by simp
  qed
qed

text \<open>
  Five daily samples in mode \<^verbatim>\<open>hals\<close> with one tidal frequency of a quarter cycle per
  day and no lag. The derivative of the heads is the cosine column, so the fit is exact
  with a barometric coefficient of zero and a cosine coefficient of one. The call returns
  a constant series, whereas subtracting the barometric contribution alone would leave
  the heads unchanged.
\<close>

theorem hals_correction_not_barometric_only:
  "regress_deconv
      (const_fit [0, 0, 1, 0] [[1, 0, 0, 0], [0, 1, 0, 0], [0, 0, 1, 0], [0, 0, 0, 1]])
      (const_svd [2, 2, sqrt 2, sqrt 2]) []
      [0, 1, 2, 3, 4] [0, 1, 1, 0, 0] [0, 1, 0, 1, 0] None
      0 (Some ''hals'') (Some [1 / 4])
   = Inr ([2 / 5, 2 / 5, 2 / 5, 2 / 5, 2 / 5],
          \<lparr> brf = \<lparr> lag = [0], irf = [0], irf_stdev = [Some 1],
                    crf = [0], crf_stdev = [Some 1] \<rparr>,
             erf = Some (ErfHals [1 / 4] [Complex 1 0]) \<rparr>, [])
   \<and> barometric_only_heads 4 1 [0, 1, 0, 1, 0] 1 [0] [0, 1, 1, 0, 0] = Inr [0, 1, 1, 0, 0]
   \<and> [2 / 5, 2 / 5, 2 / 5, 2 / 5, 2 / 5] \<noteq> [0, 1, 1, 0, 0 :: real]"
  by (simp add: deconv_hals_example barometric_only_heads_def np_dot_def lag_columns_def
        derivative_def np_cumsum_def broadcast2_def recentre_def np_nanmean_def upt_rec)

text \<open>
  Claim C2, amended: in mode \<^verbatim>\<open>hals\<close> with Earth tides, the quantity subtracted from
  the heads before the re-centring is the sample interval times the cumulative sum of
  the fitted barometric contribution (the lag columns times the barometric response)
  plus the fitted tidal contribution (the cosine columns times the real parts and the
  sine columns times the imaginary parts of the tidal coefficients), behind a leading
  zero. The tidal harmonics are part of the subtracted correction.
\<close>

theorem hals_correction_includes_tides:
  assumes run: "regress_deconv cf sv etfqs tf GW BP ET lag_h (Some ''hals'') fqs = Inr (WLc, p, ws)"
    and fq: "fq = (case fqs of None \<Rightarrow> etfqs | Some f \<Rightarrow> f)"
  shows "\<exists>dt cc baro tidal W.
      sample_interval tf = Inr dt
    \<and> erf p = Some (ErfHals fq cc)
    \<and> np_dot (length BP - 1)
         (lag_columns (length BP - 1) (length (irf (brf p))) (map uminus (derivative BP dt)))
         (irf (brf p)) = Inr baro
    \<and> np_dot (length BP - 1)
         (cos_columns (length BP - 1) tf fq @ sin_columns (length BP - 1) tf fq)
         (map Re cc @ map Im cc) = Inr tidal
    \<and> broadcast2 (\<lambda>g d. g - d) GW
         (0 # map (\<lambda>s. dt * s) (np_cumsum (map2 (+) baro tidal))) = Inr W
    \<and> WLc = recentre GW W"
proof -
  from deconv_hals_tides[OF run fq] obtain dt c covar condnum where
    dt: "sample_interval tf = Inr dt"
    and fc: "fit_and_correct cf sv (length BP - 1)
         (lag_columns (length BP - 1) (nat (lag_steps lag_h dt + 1)) (map uminus (derivative BP dt))
            @ cos_columns (length BP - 1) tf fq @ sin_columns (length BP - 1) tf fq)
         tf (derivative GW dt) dt GW = Inr (c, covar, condnum, WLc)"
    and bb: "brf_bundle c covar (np_linspace0 lag_h (nat (lag_steps lag_h dt + 1)))
        (nat (lag_steps lag_h dt + 1)) = Inr (brf p)"
    and e: "hals_erf c (nat (lag_steps lag_h dt + 1)) fq = Inr (the (erf p))"
    and ne: "erf p \<noteq> None"
    by blast
  define n where "n = length BP - 1"
  define nm where "nm = nat (lag_steps lag_h dt + 1)"
  define v where "v = lag_columns n nm (map uminus (derivative BP dt))"
  define U where "U = cos_columns n tf fq @ sin_columns n tf fq"
  define d where "d = drop 1 c"
  have lv: "length v = nm" by (simp add: v_def)
  have lU: "length U = 2 * length fq" by (simp add: U_def cos_columns_def sin_columns_def)
  from fit_and_correct_Inr[OF fc] have "corrected_heads n (v @ U) c dt GW = Inr WLc"
    unfolding n_def nm_def v_def U_def by blast
  then obtain corr W where hc: "head_correction n (v @ U) c dt = Inr corr"
    and bc: "broadcast2 (\<lambda>g d. g - d) GW corr = Inr W" and W: "WLc = recentre GW W"
    by (auto simp: corrected_heads_def bindE_Inr_iff)
  from hc obtain Xc where dot: "np_dot n (v @ U) d = Inr Xc"
    and corr: "corr = 0 # map (\<lambda>s. dt * s) (np_cumsum Xc)"
    by (auto simp: head_correction_def bindE_Inr_iff d_def)
  from np_dot_Inr_length[OF dot] lv lU have ld: "length d = nm + 2 * length fq" by simp
  from brf_bundle_Inr[OF bb] obtain rf where fi: "fancy_index c [1..<nm + 1] = Inr rf"
    and ro: "response_of (np_linspace0 lag_h nm) rf (covar_block 1 (nm + 1) covar)
               (length (np_diagonal (covar_block 1 (nm + 1) covar))) nm = Inr (brf p)"
    unfolding nm_def by blast
  from ld have "nm \<le> length (drop 1 c)" by (simp add: d_def)
  from fancy_index_range[OF fi this] have rf: "rf = take nm d" by (simp add: d_def)
  from response_of_Inr[OF ro] have irf: "irf (brf p) = take nm d" by (simp add: rf)
  with ld have lirf: "length (irf (brf p)) = nm" by simp
  from hals_erf_nth[OF e] obtain cc where ecc: "the (erf p) = ErfHals fq cc"
    and lcc: "length cc = length fq"
    and ncc: "\<forall>j<length fq. cc ! j = Complex (c ! (nm + 1 + j)) (c ! (nm + 1 + length fq + j))"
    unfolding nm_def by blast
  from ne ecc have ep: "erf p = Some (ErfHals fq cc)" by auto
  have nd: "\<forall>j<length fq. cc ! j = Complex (d ! (nm + j)) (d ! (nm + length fq + j))"
  proof (intro allI impI)
    fix j assume j: "j < length fq"
    from ld j have c1: "1 \<le> length c" by (cases c) (simp_all add: d_def)
    then have "d ! (nm + j) = c ! (nm + 1 + j)" "d ! (nm + length fq + j) = c ! (nm + 1 + length fq + j)"
      by (simp_all add: d_def add.commute add.left_commute)
    with ncc j show "cc ! j = Complex (d ! (nm + j)) (d ! (nm + length fq + j))" by simp
  qed
  from tidal_coefficients_split[OF lcc ld nd] have t: "map Re cc @ map Im cc = drop nm d" .
  have dsplit: "d = irf (brf p) @ (map Re cc @ map Im cc)" by (simp add: irf t)
  have "length v = length (irf (brf p))" by (simp add: lv lirf)
  from np_dot_total[OF this] obtain baro where baro: "np_dot n v (irf (brf p)) = Inr baro"
    by blast
  have "length U = length (map Re cc @ map Im cc)" by (simp add: lU lcc)
  from np_dot_total[OF this] obtain tidal where
    tidal: "np_dot n U (map Re cc @ map Im cc) = Inr tidal" by blast
  from np_dot_append[OF baro tidal] dot have Xc: "Xc = map2 (+) baro tidal"
    by (simp add: dsplit[symmetric])
  from dt ep baro tidal bc W show ?thesis
    unfolding corr Xc v_def U_def n_def lirf[symmetric] by blast
qed

theorem hals_correction_includes_tides_example:
  "[2 / 5, 2 / 5, 2 / 5, 2 / 5, 2 / 5]
     = recentre [0, 1, 1, 0, 0]
         (map2 (\<lambda>g d. g - d) [0, 1, 1, 0, 0]
            (0 # map (\<lambda>s. 1 * s) (np_cumsum (map2 (+) [0, 0, 0, 0] [1, 0, -1, 0]))))"
proof -
  have fq: "[1 / 4 :: real] = (case Some [1 / 4] of None \<Rightarrow> [] | Some f \<Rightarrow> f)" by simp
  from hals_correction_includes_tides [OF deconv_hals_example fq]
  obtain dt cc baro tidal W where
    dt: "sample_interval [0, 1, 2, 3, 4] = Inr dt"
    and e: "erf \<lparr> brf = \<lparr> lag = [0], irf = [0], irf_stdev = [Some 1],
                    crf = [0], crf_stdev = [Some 1] \<rparr>,
             erf = Some (ErfHals [1 / 4] [Complex 1 0]) \<rparr> = Some (ErfHals [1 / 4] cc)"
    and baro: "np_dot (length [0, 1, 0, 1, 0 :: real] - 1)
         (lag_columns (length [0, 1, 0, 1, 0 :: real] - 1)
            (length (irf (brf \<lparr> brf = \<lparr> lag = [0], irf = [0], irf_stdev = [Some 1],
                    crf = [0], crf_stdev = [Some 1] \<rparr>,
             erf = Some (ErfHals [1 / 4] [Complex 1 0]) \<rparr>)))
            (map uminus (derivative [0, 1, 0, 1, 0] dt)))
         (irf (brf \<lparr> brf = \<lparr> lag = [0], irf = [0], irf_stdev = [Some 1],
                    crf = [0], crf_stdev = [Some 1] \<rparr>,
             erf = Some (ErfHals [1 / 4] [Complex 1 0]) \<rparr>)) = Inr baro"
    and tidal: "np_dot (length [0, 1, 0, 1, 0 :: real] - 1)
         (cos_columns (length [0, 1, 0, 1, 0 :: real] - 1) [0, 1, 2, 3, 4] [1 / 4]
            @ sin_columns (length [0, 1, 0, 1, 0 :: real] - 1) [0, 1, 2, 3, 4] [1 / 4])
         (map Re cc @ map Im cc) = Inr tidal"
    and W: "broadcast2 (\<lambda>g d. g - d) [0, 1, 1, 0, 0]
         (0 # map (\<lambda>s. dt * s) (np_cumsum (map2 (+) baro tidal))) = Inr W"
    and WLc: "[2 / 5, 2 / 5, 2 / 5, 2 / 5, 2 / 5] = recentre [0, 1, 1, 0, 0] W"
    by blast
  from dt have dt1: "dt = 1" by (simp add: sample_interval_def)
  from e have cc: "cc = [Complex 1 0]" by simp
  from baro have b: "baro = [0, 0, 0, 0]"
    by (simp add: dt1 np_dot_def lag_columns_def derivative_def upt_rec)
  from tidal have t: "tidal = [1, 0, -1, 0]"
    by (simp add: cc np_dot_def cos_columns_def sin_columns_def upt_rec cos_3pi_half2
          sin_3pi_half2)
  from W have "W = map2 (\<lambda>g d. g - d) [0, 1, 1, 0, 0]
            (0 # map (\<lambda>s. 1 * s) (np_cumsum (map2 (+) [0, 0, 0, 0] [1, 0, -1, 0])))"
    by (simp add: dt1 b t broadcast2_def np_cumsum_def)
  with WLc show ?thesis by simp
qed

section \<open>The average over the windows of \<^verbatim>\<open>lin_window_ovrlp\<close>\<close>

lemma length_add_at [simp]: "length (add_at arr kv) = length arr"
  unfolding add_at_def by (induction kv arbitrary: arr) (auto simp: case_prod_beta)

lemma add_at_Cons: "add_at arr ((j, d) # kv) = add_at (arr[j := arr ! j + d]) kv"
  by (simp add: add_at_def)

lemma add_at_Nil [simp]: "add_at arr [] = arr"
  by (simp add: add_at_def)

lemma add_at_nth:
  "k < length arr \<Longrightarrow>
     add_at arr kv ! k = arr ! k + sum_list (map snd (filter (\<lambda>(j, d). j = k) kv))"
proof (induction kv arbitrary: arr)
  case Nil
  then show ?case by simp
next
  case (Cons jd kv)
  obtain j d where jd: "jd = (j, d)" by (cases jd)
  from Cons.prems have k: "k < length (arr[j := arr ! j + d])" by simp
  have "add_at arr (jd # kv) ! k = add_at (arr[j := arr ! j + d]) kv ! k"
    by (simp add: jd add_at_Cons)
  also have "\<dots> = arr[j := arr ! j + d] ! k + sum_list (map snd (filter (\<lambda>(j, d). j = k) kv))"
    using k by (rule Cons.IH)
  also have "\<dots> = arr ! k + sum_list (map snd (filter (\<lambda>(j, d). j = k) (jd # kv)))"
    using Cons.prems by (cases "j = k") (simp_all add: jd)
  finally show ?case .
qed

lemma count_marks:
  "sum_list (map snd (filter (\<lambda>(j, d). j = k) (map (\<lambda>(k, v). (k, 1 :: real)) w)))
     = of_nat (length (filter (\<lambda>(j, r). j = k) w))"
  by (induction w) (auto simp: case_prod_beta)

lemma detrend_window_indices:
  "length (filter (\<lambda>(j, r). j = k) (detrend_window fit x w))
     = length (filter (\<lambda>(j, r). j = k) w)"
proof -
  have "length (filter (\<lambda>(j, r). j = k) (map (\<lambda>(k, v). (k, g k v)) w))
          = length (filter (\<lambda>(j, r). j = k) w)" for g :: "nat \<Rightarrow> real \<Rightarrow> real"
    by (induction w) (auto simp: case_prod_beta)
  then show ?thesis by (simp add: detrend_window_def Let_def)
qed

lemma contributions_Nil [simp]: "contributions fit x [] k = []"
  by (simp add: contributions_def)

lemma contributions_Cons:
  "contributions fit x (w # idx) k
     = map snd (filter (\<lambda>(j, r). j = k) (detrend_window fit x w)) @ contributions fit x idx k"
  by (simp add: contributions_def)

lemma fold_detrend_step:
  assumes "k < length (fst acc)" "k < length (snd acc)"
  shows "fst (fold (detrend_step fit x) idx acc) ! k
           = fst acc ! k + sum_list (contributions fit x idx k)
       \<and> snd (fold (detrend_step fit x) idx acc) ! k
           = snd acc ! k + of_nat (length (contributions fit x idx k))
       \<and> length (fst (fold (detrend_step fit x) idx acc)) = length (fst acc)
       \<and> length (snd (fold (detrend_step fit x) idx acc)) = length (snd acc)"
  using assms
proof (induction idx arbitrary: acc)
  case Nil
  then show ?case by simp
next
  case (Cons w idx)
  define acc' where "acc' = detrend_step fit x w acc"
  have f: "fst acc' = add_at (fst acc) (detrend_window fit x w)"
    and s: "snd acc' = add_at (snd acc) (map (\<lambda>(k, v). (k, 1)) w)"
    by (simp_all add: acc'_def detrend_step_def)
  from Cons.prems have k1: "k < length (fst acc')" and k2: "k < length (snd acc')"
    by (simp_all add: f s)
  from Cons.IH[OF k1 k2] have
    a: "fst (fold (detrend_step fit x) idx acc') ! k
           = fst acc' ! k + sum_list (contributions fit x idx k)"
    and b: "snd (fold (detrend_step fit x) idx acc') ! k
           = snd acc' ! k + of_nat (length (contributions fit x idx k))"
    and c: "length (fst (fold (detrend_step fit x) idx acc')) = length (fst acc')"
    and d: "length (snd (fold (detrend_step fit x) idx acc')) = length (snd acc')"
    by simp_all
  have fk: "fst acc' ! k = fst acc ! k
      + sum_list (map snd (filter (\<lambda>(j, r). j = k) (detrend_window fit x w)))"
    using Cons.prems(1) by (simp add: f add_at_nth)
  have sk: "snd acc' ! k = snd acc ! k
      + of_nat (length (filter (\<lambda>(j, r). j = k) (detrend_window fit x w)))"
    using Cons.prems(2) by (simp add: s add_at_nth count_marks detrend_window_indices)
  have fo: "fold (detrend_step fit x) (w # idx) acc = fold (detrend_step fit x) idx acc'"
    by (simp add: acc'_def)
  show ?case
    unfolding fo using a b c d fk sk by (simp add: contributions_Cons f s)
qed

lemma finish_nth:
  assumes "length S = n" "length C = n"
  shows "length (finish S C) = n
       \<and> (\<forall>k<n. finish S C ! k = (if C ! k = 0 then 0 else S ! k / C ! k))"
  using assms by (simp add: finish_def Let_def)

lemma mapE_total:
  "(\<forall>x\<in>set xs. \<exists>y. f x = Inr y) \<Longrightarrow> \<exists>ys. mapE f xs = Inr ys"
  by (induction xs) (auto simp: bindE_def)

lemma drop_missing_total:
  assumes "\<forall>k\<in>set i. k < length y"
  shows "\<exists>w. drop_missing y i = Inr w"
  using assms by (simp add: drop_missing_def fancy_index_def list_all_iff)

lemma surviving_windows_total:
  assumes "length x \<le> length y"
  shows "\<exists>idx. surviving_windows x y len stopper reg_times = Inr idx"
proof -
  have "\<forall>i\<in>set (map (window_indices x len) reg_times). \<exists>w. drop_missing y i = Inr w"
  proof
    fix i assume "i \<in> set (map (window_indices x len) reg_times)"
    then obtain tt where "i = window_indices x len tt" by auto
    then have "\<forall>k\<in>set i. k < length x" by (auto simp: window_indices_def)
    with assms have "\<forall>k\<in>set i. k < length y" by auto
    then show "\<exists>w. drop_missing y i = Inr w" by (rule drop_missing_total)
  qed
  from mapE_total[OF this] obtain ws where
    "mapE (drop_missing y) (map (window_indices x len) reg_times) = Inr ws" by blast
  then show ?thesis by (simp add: surviving_windows_def)
qed


lemma length_fold_detrend_step:
  "length (fst (fold (detrend_step fit x) idx acc)) = length (fst acc)
   \<and> length (snd (fold (detrend_step fit x) idx acc)) = length (snd acc)"
  by (induction idx arbitrary: acc) (simp_all add: detrend_step_def)

lemma mapE_Inr_set:
  "mapE f xs = Inr ys \<Longrightarrow> \<forall>y\<in>set ys. \<exists>x\<in>set xs. f x = Inr y"
proof (induction xs arbitrary: ys)
  case Nil
  then show ?case by simp
next
  case (Cons x xs)
  from Cons.prems obtain y ys' where y: "f x = Inr y" and ys': "mapE f xs = Inr ys'"
    and ys: "ys = y # ys'"
    by (auto simp: bindE_Inr_iff)
  from Cons.IH[OF ys'] y ys show ?case by auto
qed

lemma kept_samples_distinct:
  "distinct i \<Longrightarrow>
     distinct (map fst (concat (map2 (\<lambda>k v. case v of None \<Rightarrow> [] | Some r \<Rightarrow> [(k, r)]) i vs)))
   \<and> set (map fst (concat (map2 (\<lambda>k v. case v of None \<Rightarrow> [] | Some r \<Rightarrow> [(k, r :: real)]) i vs)))
       \<subseteq> set i"
proof (induction i arbitrary: vs)
  case Nil
  then show ?case by simp
next
  case (Cons k i)
  show ?case
  proof (cases vs)
    case Nil
    then show ?thesis by simp
  next
    case vs: (Cons v vs')
    define K where
      "K = map fst (concat (map2 (\<lambda>k v. case v of None \<Rightarrow> [] | Some r \<Rightarrow> [(k, r :: real)]) i vs'))"
    from Cons.prems have d: "distinct i" and k: "k \<notin> set i" by simp_all
    from Cons.IH[OF d, of vs'] have dK: "distinct K" and sK: "set K \<subseteq> set i"
      by (simp_all add: K_def)
    from sK k have kK: "k \<notin> set K" by blast
    have e: "map fst (concat (map2 (\<lambda>k v. case v of None \<Rightarrow> [] | Some r \<Rightarrow> [(k, r :: real)])
                 (k # i) vs))
               = (case v of None \<Rightarrow> [] | Some r \<Rightarrow> [k]) @ K"
      by (cases v) (simp_all add: vs K_def)
    show ?thesis unfolding e using dK sK kK by (cases v) auto
  qed
qed

lemma drop_missing_distinct:
  assumes "drop_missing y i = Inr w" "distinct i"
  shows "distinct (map fst w)"
proof -
  from assms(1) obtain yi where
    w: "w = concat (map2 (\<lambda>k v. case v of None \<Rightarrow> [] | Some r \<Rightarrow> [(k, r)]) i yi)"
    by (auto simp: drop_missing_def bindE_Inr_iff)
  from kept_samples_distinct[OF assms(2), of yi] show ?thesis by (simp add: w)
qed

lemma surviving_windows_distinct:
  assumes "surviving_windows x y len stopper reg_times = Inr idx"
  shows "\<forall>w\<in>set idx. distinct (map fst w)"
proof
  fix w assume w: "w \<in> set idx"
  from assms obtain ws where
    m: "mapE (drop_missing y) (map (window_indices x len) reg_times) = Inr ws"
    and idx: "idx = filter (\<lambda>w. stopper \<le> int (length w)) ws"
    by (auto simp: surviving_windows_def bindE_Inr_iff)
  from w idx have "w \<in> set ws" by simp
  with mapE_Inr_set[OF m] obtain i where
    i: "i \<in> set (map (window_indices x len) reg_times)" and dm: "drop_missing y i = Inr w"
    by blast
  from i have "distinct i" by (auto simp: window_indices_def)
  with dm show "distinct (map fst w)" by (rule drop_missing_distinct)
qed

lemma one_entry_per_window:
  "distinct (map fst w) \<Longrightarrow>
     length (filter (\<lambda>(j, r). j = k) w) = (if k \<in> fst ` set w then 1 else 0)"
proof (induction w)
  case Nil
  then show ?case by simp
next
  case (Cons jr w)
  obtain j r where jr: "jr = (j, r)" by (cases jr)
  from Cons.prems have d: "distinct (map fst w)" and j: "j \<notin> fst ` set w"
    by (simp_all add: jr)
  from Cons.IH[OF d] j show ?case by (auto simp: jr)
qed

lemma contributions_per_window:
  "\<forall>w\<in>set idx. distinct (map fst w) \<Longrightarrow>
     length (contributions fit x idx k) = length (filter (\<lambda>w. k \<in> fst ` set w) idx)"
proof (induction idx)
  case Nil
  then show ?case by simp
next
  case (Cons w idx)
  from Cons.prems have d: "distinct (map fst w)" and r: "\<forall>w\<in>set idx. distinct (map fst w)"
    by simp_all
  have "length (contributions fit x (w # idx) k)
          = length (filter (\<lambda>(j, r). j = k) w) + length (contributions fit x idx k)"
    by (simp add: contributions_Cons detrend_window_indices)
  also have "\<dots> = (if k \<in> fst ` set w then 1 else 0)
                       + length (filter (\<lambda>w. k \<in> fst ` set w) idx)"
    by (simp only: one_entry_per_window[OF d] Cons.IH[OF r])
  also have "\<dots> = length (filter (\<lambda>w. k \<in> fst ` set w) (w # idx))" by simp
  finally show ?case .
qed

text \<open>
  A series of a single sample: \<^verbatim>\<open>x[1]\<close> at line 466 raises IndexError, and no vector
  is returned.
\<close>

theorem lin_window_ovrlp_single_sample:
  "lin_window_ovrlp (const_line (0, 0)) [5] [Some 1] 3 3 3 = Inl IndexError"
  by (simp add: lin_window_ovrlp_def)

text \<open>
  Claim C8, amended: for every input with at least two time stamps, at least as many
  data samples as time stamps, a window length other than zero and a number of overlaps
  other than \<open>-1\<close>, with any line fit, \<^verbatim>\<open>lin_window_ovrlp\<close> returns a vector of the
  length of the data. A sample that at least one surviving window contains has the sum of
  its detrended values over these windows divided by their number; every surviving window
  that contains the sample contributes exactly one value. A sample that no surviving
  window contains has the value zero. The surviving windows are those with at least
  \<open>stopper\<close> samples that are not missing.
\<close>

theorem lin_window_ovrlp_average:
  assumes tf: "2 \<le> length tf" and data: "length tf \<le> length data"
    and len: "len \<noteq> 0" and ov: "n_ovrlp \<noteq> - 1"
  shows "\<exists>reg_times idx out.
      np_arange (tf ! 0 - (tf ! 1 - tf ! 0) - len) (last tf + len) (len / of_int (n_ovrlp + 1))
        = Inr reg_times
    \<and> surviving_windows tf data len stopper reg_times = Inr idx
    \<and> lin_window_ovrlp fit tf data len stopper n_ovrlp = Inr out
    \<and> length out = length data
    \<and> (\<forall>k<length data.
          length (contributions fit tf idx k) = length (filter (\<lambda>w. k \<in> fst ` set w) idx)
        \<and> out ! k = (if contributions fit tf idx k = [] then 0
                     else sum_list (contributions fit tf idx k)
                            / of_nat (length (contributions fit tf idx k))))"
proof -
  from tf obtain a b rest where tfc: "tf = a # b # rest"
    by (cases tf rule: np_diff.cases) auto
  from ov have ov1: "n_ovrlp + 1 \<noteq> 0" by simp
  with len have step: "len / of_int (n_ovrlp + 1) \<noteq> 0" by simp
  then obtain reg_times where
    reg: "np_arange (tf ! 0 - (tf ! 1 - tf ! 0) - len) (last tf + len)
            (len / of_int (n_ovrlp + 1)) = Inr reg_times"
    by (simp add: np_arange_def)
  from surviving_windows_total[OF data] obtain idx where
    idx: "surviving_windows tf data len stopper reg_times = Inr idx" by blast
  define acc where "acc = fold (detrend_step fit tf) idx
                            (replicate (length data) 0, replicate (length data) 0)"
  define out where "out = finish (fst acc) (snd acc)"
  from reg have reg': "np_arange (a - (b - a) - len) (last tf + len)
            (len / of_int (n_ovrlp + 1)) = Inr reg_times"
    by (simp add: tfc)
  have run: "lin_window_ovrlp fit tf data len stopper n_ovrlp = Inr out"
    using ov1 reg' idx by (simp add: lin_window_ovrlp_def tfc Let_def out_def acc_def)
  from length_fold_detrend_step[of fit tf idx "(replicate (length data) 0, replicate (length data) 0)"]
  have lS: "length (fst acc) = length data" and lC: "length (snd acc) = length data"
    by (simp_all add: acc_def)
  from finish_nth[OF lS lC] have lo: "length out = length data"
    and fo: "\<forall>k<length data. out ! k = (if snd acc ! k = 0 then 0 else fst acc ! k / snd acc ! k)"
    by (simp_all add: out_def)
  from contributions_per_window[OF surviving_windows_distinct[OF idx]]
  have per: "length (contributions fit tf idx k) = length (filter (\<lambda>w. k \<in> fst ` set w) idx)"
    for k .
  have vals: "\<forall>k<length data.
          out ! k = (if contributions fit tf idx k = [] then 0
                     else sum_list (contributions fit tf idx k)
                            / of_nat (length (contributions fit tf idx k)))"
  proof (intro allI impI)
    fix k assume k: "k < length data"
    from fold_detrend_step[of k "(replicate (length data) 0, replicate (length data) 0)" fit tf idx] k
    have S: "fst acc ! k = sum_list (contributions fit tf idx k)"
      and C: "snd acc ! k = of_nat (length (contributions fit tf idx k))"
      by (simp_all add: acc_def)
    from fo k have "out ! k = (if snd acc ! k = 0 then 0 else fst acc ! k / snd acc ! k)" by blast
    then show "out ! k = (if contributions fit tf idx k = [] then 0
                     else sum_list (contributions fit tf idx k)
                            / of_nat (length (contributions fit tf idx k)))"
      by (simp add: S C)
  qed
  from reg idx run lo vals per show ?thesis by blast
qed


theorem lin_window_ovrlp_average_example:
  "(case lin_window_ovrlp (const_line (0, 1)) [0, 1, 2, 3, 4]
           [Some 1, Some 3, Some 2, None, Some 7] 2 2 1 of
      Inl e \<Rightarrow> False
    | Inr out \<Rightarrow> length out = 5 \<and> out ! 1 = 2 \<and> out ! 4 = 0)"
proof -
  let ?x = "[0, 1, 2, 3, 4] :: real list"
  let ?y = "[Some 1, Some 3, Some 2, None, Some 7] :: real option list"
  have h1: "2 \<le> length ?x" by simp
  have h2: "length ?x \<le> length ?y" by simp
  have h3: "(2 :: real) \<noteq> 0" by simp
  have h4: "(1 :: int) \<noteq> - 1" by simp
  from lin_window_ovrlp_average [OF h1 h2 h3 h4, of 2 "const_line (0, 1)"]
  obtain reg_times idx out where
    reg: "np_arange (?x ! 0 - (?x ! 1 - ?x ! 0) - 2) (last ?x + 2) (2 / of_int (1 + 1))
            = Inr reg_times"
    and idx: "surviving_windows ?x ?y 2 2 reg_times = Inr idx"
    and run: "lin_window_ovrlp (const_line (0, 1)) ?x ?y 2 2 1 = Inr out"
    and lo: "length out = length ?y"
    and vals: "\<forall>k<length ?y.
          length (contributions (const_line (0, 1)) ?x idx k)
            = length (filter (\<lambda>w. k \<in> fst ` set w) idx)
        \<and> out ! k = (if contributions (const_line (0, 1)) ?x idx k = [] then 0
                     else sum_list (contributions (const_line (0, 1)) ?x idx k)
                            / of_nat (length (contributions (const_line (0, 1)) ?x idx k)))"
    by blast
  from reg have r: "reg_times = [-3, -2, -1, 0, 1, 2, 3, 4, 5]"
    by (simp add: np_arange_def upt_rec)
  from idx have i: "idx = [[(0, 1), (1, 3)], [(1, 3), (2, 2)]]"
    by (auto simp add: r surviving_windows_def window_indices_def drop_missing_def
          fancy_index_def upt_rec)
  have c1: "contributions (const_line (0, 1)) ?x idx 1 = [2, 2]"
    by (simp add: i contributions_def detrend_window_def const_line_def)
  have c4: "contributions (const_line (0, 1)) ?x idx 4 = []"
    by (simp add: i contributions_def detrend_window_def const_line_def)
  have k1: "(1 :: nat) < length ?y" and k4: "(4 :: nat) < length ?y" by simp_all
  from vals[rule_format, OF k1] have o1: "out ! 1 = 2" unfolding c1 by simp
  from vals[rule_format, OF k4] have o4: "out ! 4 = 0" unfolding c4 by simp
  from lo o1 o4 show ?thesis by (simp add: run)
qed

end
